theory Spec2Isabelle
  imports Complex_Main "HOL-Library.Sublist"
begin

section \<open>Strings as the dashboard code uses them\<close>

text \<open>
  A JavaScript string is modelled as a \<^typ>\<open>string\<close> whose characters are the code units
  below 256 (Latin-1). The character classes below are the ones the source's regular
  expressions and \<^verbatim>\<open>String.prototype\<close> methods use, cut down to that range:
  \<^verbatim>\<open>\s\<close> and \<^verbatim>\<open>trim()\<close> treat TAB, LF, VT, FF, CR, SPACE and NBSP as white space.
\<close>

definition code :: "char \<Rightarrow> nat" where
  "code c = of_char c"

definition is_upper :: "char \<Rightarrow> bool" where
  "is_upper c = (65 \<le> code c \<and> code c \<le> 90)"

definition is_lower :: "char \<Rightarrow> bool" where
  "is_lower c = (97 \<le> code c \<and> code c \<le> 122)"

definition is_alpha :: "char \<Rightarrow> bool" where
  "is_alpha c = (is_upper c \<or> is_lower c)"


definition is_space :: "char \<Rightarrow> bool" where
  "is_space c = (code c \<in> {9, 10, 11, 12, 13, 32, 160})"

definition trim :: "string \<Rightarrow> string" where
  "trim s = rev (dropWhile is_space (rev (dropWhile is_space s)))"

definition lower_char :: "char \<Rightarrow> char" where
  "lower_char c =
     (if is_upper c \<or> (192 \<le> code c \<and> code c \<le> 222 \<and> code c \<noteq> 215)
      then char_of (code c + 32) else c)"

definition toLowerCase :: "string \<Rightarrow> string" where
  "toLowerCase s = map lower_char s"

text \<open>\<^verbatim>\<open>Array.prototype.join\<close> on an array of strings.\<close>

fun join :: "string \<Rightarrow> string list \<Rightarrow> string" where
  "join sep [] = []"
| "join sep [x] = x"
| "join sep (x # y # ys) = x @ sep @ join sep (y # ys)"

text \<open>
  \<^verbatim>\<open>text.split(/[...]+/)\<close> for a character class \<open>sep\<close>: the string is cut at every
  maximal run of separator characters; a run at the very start or the very end leaves an
  empty first or last piece, as in JavaScript.
\<close>

function split_on :: "(char \<Rightarrow> bool) \<Rightarrow> string \<Rightarrow> string list" where
  "split_on sep s =
     (let piece = takeWhile (\<lambda>c. \<not> sep c) s; rest = dropWhile (\<lambda>c. \<not> sep c) s
      in if rest = [] then [piece]
         else piece # split_on sep (dropWhile sep rest))"
  by pat_completeness auto
termination
proof (relation "measure (\<lambda>(sep, s). length s)")
  show "wf (measure (\<lambda>(sep, s). length s))" by simp
next
  fix sep :: "char \<Rightarrow> bool" and s piece rest :: string
  assume r: "rest = dropWhile (\<lambda>c. \<not> sep c) s" and ne: "rest \<noteq> []"
  from ne obtain c cs where rc: "rest = c # cs" by (cases rest) auto
  have "length (dropWhile sep rest) \<le> length cs"
  proof -
    have "sep c" using r rc dropWhile_eq_Cons_conv [of "\<lambda>c. \<not> sep c" s c cs] by simp
    then have "dropWhile sep rest = dropWhile sep cs" by (simp add: rc)
    then show ?thesis by (simp add: length_dropWhile_le)
  qed
  moreover have "length rest \<le> length s" by (simp add: r length_dropWhile_le)
  ultimately show "((sep, dropWhile sep rest), (sep, s)) \<in> measure (\<lambda>(sep, s). length s)"
    by (simp add: rc)
qed

declare split_on.simps [simp del]

section \<open>The unique-email filter of the table view\<close>



text \<open>
  \<open>match_domain r k\<close>: the domain class has taken \<open>k\<close> characters of \<open>r\<close>; then a dot
  and at least two letters must follow. Returns the length matched in \<open>r\<close>.
\<close>

fun match_domain :: "string \<Rightarrow> nat \<Rightarrow> nat option" where
  "match_domain r 0 = None"
| "match_domain r (Suc k) =
     (let tld = takeWhile is_alpha (drop (Suc (Suc k)) r)
      in if Suc k < length r \<and> r ! (Suc k) = CHR ''.'' \<and> 2 \<le> length tld
         then Some (Suc (Suc k) + length tld)
         else match_domain r k)"



lemma match_domain_pos: "match_domain r k = Some e \<Longrightarrow> 0 < e"
  by (induction k) (auto simp: Let_def split: if_splits)











section \<open>JavaScript values\<close>

text \<open>
  A JavaScript number is a double. Its finite values are rationals, and the operations the
  dashboard applies to settings (comparison with zero, \<^verbatim>\<open>Math.floor\<close>, \<^verbatim>\<open>Math.max\<close>)
  are exact on doubles, so a finite number is modelled by the rational it denotes; the
  three values that are not rationals are kept apart. The two zeros are one value: the code
  below never divides by, prints the sign of, or otherwise tells apart \<^verbatim>\<open>-0\<close>.
\<close>

datatype jsnum = NaN | NegInf | Fin rat | PosInf

datatype jsval =
    JUndefined
  | JNull
  | JBool bool
  | JNum jsnum
  | JStr string
  | JArr "jsval list"
  | JObj "(string \<times> jsval) list"

type_synonym jsobj = "(string \<times> jsval) list"

text \<open>
  An object is the list of its properties in creation order; a later binding of a key
  overrides an earlier one, which is how an object spread \<^verbatim>\<open>{ ...a, ...b }\<close> and
  \<^verbatim>\<open>JSON.parse\<close> treat repeated keys. Reading a missing property gives \<^verbatim>\<open>undefined\<close>.
\<close>

definition getProp :: "jsobj \<Rightarrow> string \<Rightarrow> jsval" where
  "getProp obj k = (case map_of (rev obj) k of None \<Rightarrow> JUndefined | Some v \<Rightarrow> v)"

definition isNaN :: "jsnum \<Rightarrow> bool" where
  "isNaN x = (x = NaN)"

text \<open>\<^verbatim>\<open>x <= 0\<close>\<close>

fun le_zero :: "jsnum \<Rightarrow> bool" where
  "le_zero NaN = False"
| "le_zero NegInf = True"
| "le_zero (Fin r) = (r \<le> 0)"
| "le_zero PosInf = False"

text \<open>\<^verbatim>\<open>x > 0\<close>\<close>

fun gt_zero :: "jsnum \<Rightarrow> bool" where
  "gt_zero NaN = False"
| "gt_zero NegInf = False"
| "gt_zero (Fin r) = (0 < r)"
| "gt_zero PosInf = True"

text \<open>\<^verbatim>\<open>Math.floor\<close>\<close>

fun floor_num :: "jsnum \<Rightarrow> jsnum" where
  "floor_num (Fin r) = Fin (of_int \<lfloor>r\<rfloor>)"
| "floor_num x = x"

text \<open>\<^verbatim>\<open>Math.max\<close> of two numbers\<close>

fun max_num :: "jsnum \<Rightarrow> jsnum \<Rightarrow> jsnum" where
  "max_num NaN y = NaN"
| "max_num x NaN = NaN"
| "max_num PosInf y = PosInf"
| "max_num x PosInf = PosInf"
| "max_num NegInf y = y"
| "max_num x NegInf = x"
| "max_num (Fin a) (Fin b) = Fin (max a b)"

text \<open>
  The conversions between strings and numbers follow the numeric-literal grammar of the
  language and are not written out: they are parameters, and every statement below holds
  whatever they compute.
\<close>

record conversions =
  strToNum :: "string \<Rightarrow> jsnum"   \<comment> \<open>\<^verbatim>\<open>Number(s)\<close> for a string\<close>
  numToStr :: "jsnum \<Rightarrow> string"   \<comment> \<open>\<^verbatim>\<open>String(n)\<close> for a number\<close>

text \<open>\<^verbatim>\<open>String(v)\<close>, and the text an element contributes to \<^verbatim>\<open>Array.prototype.join\<close>.\<close>

fun toStr :: "conversions \<Rightarrow> jsval \<Rightarrow> string"
  and elemStr :: "conversions \<Rightarrow> jsval \<Rightarrow> string" where
  "toStr cv JUndefined = ''undefined''"
| "toStr cv JNull = ''null''"
| "toStr cv (JBool b) = (if b then ''true'' else ''false'')"
| "toStr cv (JNum n) = numToStr cv n"
| "toStr cv (JStr s) = s"
| "toStr cv (JArr xs) = join '','' (map (elemStr cv) xs)"
| "toStr cv (JObj ps) = ''[object Object]''"
| "elemStr cv JUndefined = []"
| "elemStr cv JNull = []"
| "elemStr cv (JBool b) = toStr cv (JBool b)"
| "elemStr cv (JNum n) = toStr cv (JNum n)"
| "elemStr cv (JStr s) = toStr cv (JStr s)"
| "elemStr cv (JArr xs) = toStr cv (JArr xs)"
| "elemStr cv (JObj ps) = toStr cv (JObj ps)"

definition joinVals :: "conversions \<Rightarrow> string \<Rightarrow> jsval list \<Rightarrow> string" where
  \<comment> \<open>\<^verbatim>\<open>xs.join(sep)\<close>\<close>
  "joinVals cv sep xs = join sep (map (elemStr cv) xs)"

text \<open>\<^verbatim>\<open>Number(v)\<close>\<close>

fun toNumber :: "conversions \<Rightarrow> jsval \<Rightarrow> jsnum" where
  "toNumber cv JUndefined = NaN"
| "toNumber cv JNull = Fin 0"
| "toNumber cv (JBool b) = (if b then Fin 1 else Fin 0)"
| "toNumber cv (JNum n) = n"
| "toNumber cv (JStr s) = strToNum cv s"
| "toNumber cv (JArr xs) = strToNum cv (toStr cv (JArr xs))"
| "toNumber cv (JObj ps) = strToNum cv (toStr cv (JObj ps))"

text \<open>\<^verbatim>\<open>Boolean(v)\<close>\<close>

fun toBoolean :: "jsval \<Rightarrow> bool" where
  "toBoolean JUndefined = False"
| "toBoolean JNull = False"
| "toBoolean (JBool b) = b"
| "toBoolean (JNum n) = (n \<noteq> NaN \<and> n \<noteq> Fin 0)"
| "toBoolean (JStr s) = (s \<noteq> [])"
| "toBoolean (JArr xs) = True"
| "toBoolean (JObj ps) = True"

text \<open>
  \<^verbatim>\<open>JSON.parse(JSON.stringify(v))\<close>, on values: a number that is not finite is written
  as \<^verbatim>\<open>null\<close>; \<^verbatim>\<open>undefined\<close> is written as \<^verbatim>\<open>null\<close> inside an array and its
  property is left out of an object; everything else is read back as it was written.
  The JSON text itself is not modelled, only the value it denotes.
\<close>

fun jsonCopy :: "jsval \<Rightarrow> jsval" where
  "jsonCopy JUndefined = JNull"
| "jsonCopy JNull = JNull"
| "jsonCopy (JBool b) = JBool b"
| "jsonCopy (JNum n) = (case n of Fin r \<Rightarrow> JNum (Fin r) | _ \<Rightarrow> JNull)"
| "jsonCopy (JStr s) = JStr s"
| "jsonCopy (JArr xs) = JArr (map jsonCopy xs)"
| "jsonCopy (JObj ps) =
     JObj (map (\<lambda>(k, v). (k, jsonCopy v)) (filter (\<lambda>(k, v). v \<noteq> JUndefined) ps))"

text \<open>The decimal numeral of an array index, as a property key.\<close>

function decimal :: "nat \<Rightarrow> string" where
  "decimal n =
     (if n < 10 then [char_of (48 + n)]
      else decimal (n div 10) @ [char_of (48 + n mod 10)])"
  by pat_completeness auto
termination
  by (relation "measure id") auto

declare decimal.simps [simp del]

text \<open>
  The own enumerable properties an object spread \<^verbatim>\<open>...v\<close> copies: those of an object,
  the indexed elements of an array, the indexed characters of a string, none otherwise.
\<close>

fun spreadProps :: "jsval \<Rightarrow> jsobj" where
  "spreadProps (JObj ps) = ps"
| "spreadProps (JArr xs) = map (\<lambda>i. (decimal i, xs ! i)) [0..<length xs]"
| "spreadProps (JStr s) = map (\<lambda>i. (decimal i, JStr [s ! i])) [0..<length s]"
| "spreadProps v = []"

section \<open>Discovery settings\<close>

definition DEFAULT_DISCOVERY_KEYWORDS :: string where
  "DEFAULT_DISCOVERY_KEYWORDS =
     ''crypto, bitcoin, ethereum, defi, altcoin, memecoin, onchain, crypto trading''"

definition parseDiscoveryKeywords :: "string \<Rightarrow> string list" where
  "parseDiscoveryKeywords text =
     (if text = [] then []
      else filter (\<lambda>w. w \<noteq> [])
             (map trim (split_on (\<lambda>c. c = CHR 0x0A \<or> c = CHR '','') text)))"

definition parseDiscoveryDenyLanguages :: "string \<Rightarrow> string list" where
  "parseDiscoveryDenyLanguages text =
     (if text = [] then []
      else filter (\<lambda>w. w \<noteq> [])
             (map (\<lambda>v. toLowerCase (trim v)) (split_on (\<lambda>c. is_space c \<or> c = CHR '','') text)))"

text \<open>
  The settings object. \<open>None\<close> is \<^verbatim>\<open>null\<close>. The mode is kept as the string the
  source stores.
\<close>

record discovery_settings =
  keywordsText :: string
  keywordList :: "string list"   \<comment> \<open>the property \<^verbatim>\<open>keywords\<close>\<close>
  perKeyword :: jsnum
  lastUploadMaxAgeDays :: "jsnum option"
  denyLanguagesText :: string
  denyLanguages :: "string list"
  enrichLimit :: "jsnum option"
  autoEnrichEnabled :: bool
  autoEnrichMode :: string
  runUntilStopped :: bool

definition defaultDiscoverySettingsState :: discovery_settings where
  "defaultDiscoverySettingsState =
     \<lparr> keywordsText = DEFAULT_DISCOVERY_KEYWORDS,
       keywordList = parseDiscoveryKeywords DEFAULT_DISCOVERY_KEYWORDS,
       perKeyword = Fin 5,
       lastUploadMaxAgeDays = None,
       denyLanguagesText = [],
       denyLanguages = [],
       enrichLimit = None,
       autoEnrichEnabled = False,
       autoEnrichMode = ''email_only'',
       runUntilStopped = False \<rparr>"

text \<open>The settings record as the JavaScript object it is, property by property.\<close>

definition numOrNull :: "jsnum option \<Rightarrow> jsval" where
  "numOrNull x = (case x of None \<Rightarrow> JNull | Some n \<Rightarrow> JNum n)"

definition settingsObject :: "discovery_settings \<Rightarrow> jsobj" where
  "settingsObject st =
     [ (''keywordsText'', JStr (keywordsText st)),
       (''keywords'', JArr (map JStr (keywordList st))),
       (''perKeyword'', JNum (perKeyword st)),
       (''lastUploadMaxAgeDays'', numOrNull (lastUploadMaxAgeDays st)),
       (''denyLanguagesText'', JStr (denyLanguagesText st)),
       (''denyLanguages'', JArr (map JStr (denyLanguages st))),
       (''enrichLimit'', numOrNull (enrichLimit st)),
       (''autoEnrichEnabled'', JBool (autoEnrichEnabled st)),
       (''autoEnrichMode'', JStr (autoEnrichMode st)),
       (''runUntilStopped'', JBool (runUntilStopped st)) ]"

text \<open>
  The block that \<open>normalizeDiscoverySettings\<close> runs once for \<^verbatim>\<open>lastUploadMaxAgeDays\<close>
  and once, letter for letter, for \<^verbatim>\<open>enrichLimit\<close>:
  \<^verbatim>\<open>
    let x = null;
    if (typeof raw === 'number') { if (raw > 0) { x = Math.floor(raw); } }
    else if (typeof raw === 'string' && raw.trim() !== '') {
      const parsed = Number(raw);
      if (!Number.isNaN(parsed) && parsed > 0) { x = Math.floor(parsed); }
    }
  \<close>
\<close>

fun positiveFloorOrNull :: "conversions \<Rightarrow> jsval \<Rightarrow> jsnum option" where
  "positiveFloorOrNull cv (JNum n) = (if gt_zero n then Some (floor_num n) else None)"
| "positiveFloorOrNull cv (JStr s) =
     (if trim s \<noteq> []
      then (let parsed = strToNum cv s
            in if \<not> isNaN parsed \<and> gt_zero parsed then Some (floor_num parsed) else None)
      else None)"
| "positiveFloorOrNull cv v = None"

definition normalizeDiscoverySettings :: "conversions \<Rightarrow> jsobj \<Rightarrow> discovery_settings" where
  "normalizeDiscoverySettings cv raw =
     (let defaults = defaultDiscoverySettingsState;
          keywordsText =
            (case getProp raw ''keywordsText'' of
               JStr s \<Rightarrow> s
             | _ \<Rightarrow> (case getProp raw ''keywords'' of
                        JArr xs \<Rightarrow> joinVals cv '', '' xs
                      | _ \<Rightarrow> keywordsText defaults));
          keywordList = parseDiscoveryKeywords keywordsText;
          perKeywordRaw = toNumber cv (getProp raw ''perKeyword'');
          perKeyword =
            (if isNaN perKeywordRaw \<or> le_zero perKeywordRaw then perKeyword defaults
             else max_num (Fin 1) (floor_num perKeywordRaw));
          lastUploadMaxAgeDays = positiveFloorOrNull cv (getProp raw ''lastUploadMaxAgeDays'');
          denyLanguagesText =
            (case getProp raw ''denyLanguagesText'' of
               JStr s \<Rightarrow> s
             | _ \<Rightarrow> (case getProp raw ''denyLanguages'' of
                        JArr xs \<Rightarrow> joinVals cv '', '' xs
                      | _ \<Rightarrow> []));
          denyLanguages = parseDiscoveryDenyLanguages denyLanguagesText;
          enrichLimit = positiveFloorOrNull cv (getProp raw ''enrichLimit'');
          autoEnrichMode =
            (if getProp raw ''autoEnrichMode'' = JStr ''full'' then ''full'' else ''email_only'');
          autoEnrichEnabled = toBoolean (getProp raw ''autoEnrichEnabled'');
          runUntilStopped = toBoolean (getProp raw ''runUntilStopped'')
      in \<lparr> keywordsText = keywordsText,
           keywordList = keywordList,
           perKeyword = perKeyword,
           lastUploadMaxAgeDays = lastUploadMaxAgeDays,
           denyLanguagesText = denyLanguagesText,
           denyLanguages = denyLanguages,
           enrichLimit = enrichLimit,
           autoEnrichEnabled = autoEnrichEnabled,
           autoEnrichMode = autoEnrichMode,
           runUntilStopped = runUntilStopped \<rparr>)"

text \<open>
  What \<^verbatim>\<open>localStorage.getItem\<close> and \<^verbatim>\<open>JSON.parse\<close> give \<open>loadDiscoverySettings\<close>:
  no item (or the empty string, which is falsy), a text that does not parse (the
  \<^verbatim>\<open>catch\<close> branch), or the parsed value.
\<close>

datatype stored_item = NoItem | Unparsable | Parsed jsval

definition saveDiscoverySettings :: "discovery_settings \<Rightarrow> stored_item" where
  \<comment> \<open>the item as the next \<open>loadDiscoverySettings\<close> parses it\<close>
  "saveDiscoverySettings st = Parsed (jsonCopy (JObj (settingsObject st)))"

definition loadDiscoverySettings :: "conversions \<Rightarrow> stored_item \<Rightarrow> discovery_settings" where
  "loadDiscoverySettings cv item =
     (let defaults = defaultDiscoverySettingsState
      in case item of
           Parsed parsed \<Rightarrow>
             normalizeDiscoverySettings cv (settingsObject defaults @ spreadProps parsed)
         | _ \<Rightarrow> defaults)"

text \<open>
  The object \<open>loadDiscoverySettings\<close> normalises after \<open>saveDiscoverySettings\<close>:
  \<^verbatim>\<open>{ ...defaults, ...JSON.parse(JSON.stringify(settings)) }\<close>.
\<close>

definition reloadedObject :: "discovery_settings \<Rightarrow> jsobj" where
  "reloadedObject st = settingsObject defaultDiscoverySettingsState @ spreadProps (jsonCopy (JObj (settingsObject st)))"

subsection \<open>The shape and the round trip, as the specification words them\<close>

text \<open>
  \<^verbatim>\<open>Number.isInteger(n) && n >= 1\<close>, and the same for a value that may be \<^verbatim>\<open>null\<close>.
\<close>

definition intAtLeastOne :: "jsnum \<Rightarrow> bool" where
  "intAtLeastOne n = (case n of Fin r \<Rightarrow> r = of_int \<lfloor>r\<rfloor> \<and> 1 \<le> r | _ \<Rightarrow> False)"

definition nullOrIntAtLeastOne :: "jsnum option \<Rightarrow> bool" where
  "nullOrIntAtLeastOne x = (case x of None \<Rightarrow> True | Some n \<Rightarrow> intAtLeastOne n)"

text \<open>
  The shape claimed for every result of \<open>normalizeDiscoverySettings\<close>. That the two
  flags are booleans is the type of the record's fields.
\<close>

definition settingsShape :: "discovery_settings \<Rightarrow> bool" where
  "settingsShape st =
     (intAtLeastOne (perKeyword st)
      \<and> nullOrIntAtLeastOne (lastUploadMaxAgeDays st)
      \<and> nullOrIntAtLeastOne (enrichLimit st)
      \<and> (autoEnrichMode st = ''full'' \<or> autoEnrichMode st = ''email_only'')
      \<and> keywordList st = parseDiscoveryKeywords (keywordsText st))"

text \<open>
  The fields the round trip is claimed to reproduce: keyword list, numeric fields,
  boolean flags.
\<close>

definition sameSettings :: "discovery_settings \<Rightarrow> discovery_settings \<Rightarrow> bool" where
  "sameSettings a b =
     (keywordList a = keywordList b
      \<and> perKeyword a = perKeyword b
      \<and> lastUploadMaxAgeDays a = lastUploadMaxAgeDays b
      \<and> enrichLimit a = enrichLimit b
      \<and> autoEnrichEnabled a = autoEnrichEnabled b
      \<and> runUntilStopped a = runUntilStopped b)"

text \<open>
  A numeric setting as \<^verbatim>\<open>JSON.stringify\<close> stores it, and whether the stored value is one
  that the reload keeps: a number greater than 0. Any other stored value, \<^verbatim>\<open>null\<close>
  above all, is replaced by the default of the field.
\<close>

definition storedNumber :: "jsnum option \<Rightarrow> jsval" where
  "storedNumber x = jsonCopy (numOrNull x)"

definition storedValid :: "jsval \<Rightarrow> bool" where
  "storedValid v = (case v of JNum n \<Rightarrow> gt_zero n | _ \<Rightarrow> False)"

text \<open>
  A raw limit that reads as a number strictly between 0 and 1, as a number or as a
  numeric string. \<^verbatim>\<open>Math.floor\<close> takes such a limit to 0.
\<close>

definition betweenZeroAndOne :: "conversions \<Rightarrow> jsval \<Rightarrow> bool" where
  "betweenZeroAndOne cv v =
     (case v of
        JNum (Fin r) \<Rightarrow> 0 < r \<and> r < 1
      | JStr s \<Rightarrow> trim s \<noteq> [] \<and> (case strToNum cv s of Fin r \<Rightarrow> 0 < r \<and> r < 1 | _ \<Rightarrow> False)
      | _ \<Rightarrow> False)"

text \<open>
  Conversions for inputs that hold no numeric string: every string reads as \<^verbatim>\<open>NaN\<close>.
  They are used only to evaluate the model on concrete inputs without such strings.
\<close>

definition noConversions :: conversions where
  "noConversions = \<lparr> strToNum = (\<lambda>s. NaN), numToStr = (\<lambda>n. []) \<rparr>"

section \<open>The dashboard: state, effects and replies\<close>

text \<open>
  The \<^verbatim>\<open>Dashboard\<close> object is a record of the fields the orchestration code reads and
  writes. Rendering (\<^verbatim>\<open>renderTable\<close>, \<^verbatim>\<open>updateDiscoveryLoopCounter\<close>,
  \<^verbatim>\<open>updateQuickStats\<close>, \<^verbatim>\<open>updateSystemStatus\<close>) only displays these fields and the table
  rows and is left out. Everything the code sends out (a notice in the status, progress or
  summary bar, a request to the server, a timer) is appended to the log \<open>effects\<close>, in
  the order the code issues it. Every control the code looks up is taken to exist.

  JavaScript runs one handler at a time; another handler can only run while the first one
  waits at an \<^verbatim>\<open>await\<close>. An \<^verbatim>\<open>async\<close> method is modelled as a function that takes the
  replies it waits for as arguments. The discovery loop is modelled together with the
  clicks that arrive while it waits; the other handlers are modelled without interleaving
  inside them, except that the prefix a method runs before its first \<^verbatim>\<open>await\<close> is a
  function of its own where a claim depends on it.
\<close>

datatype tone = Info | Success | Error

datatype category = ACTIVE | ARCHIVED | BLACKLISTED

datatype menu = EnrichMenu | ImportExportMenu

type_synonym job_id = string

text \<open>
  The inputs of one discovery request, as \<open>collectDiscoveryInputsFromSettings\<close> builds
  them.
\<close>

record discovery_inputs =
  in_keywords :: "string list"
  in_perKeyword :: jsnum
  in_denyLanguages :: "string list"
  in_lastUploadMaxAgeDays :: "jsnum option"

text \<open>
  The texts of the status bar. Numbers in a text are arguments (their formatting by
  \<^verbatim>\<open>Intl.NumberFormat\<close> is not modelled); \<open>label\<close> is the run number of
  \<^verbatim>\<open>Run #n: \<close>, absent outside the loop.
\<close>

datatype status_msg =
    LoopAlreadyRunning            \<comment> \<open>\<^verbatim>\<open>Discovery loop is already running.\<close>\<close>
  | LoopRunningNoSettings         \<comment> \<open>\<^verbatim>\<open>Discovery loop is running. Stop it before changing settings.\<close>\<close>
  | ProvideKeyword                \<comment> \<open>\<^verbatim>\<open>Please provide at least one keyword.\<close>\<close>
  | LoopStarted                   \<comment> \<open>\<^verbatim>\<open>Discovery loop started. Click stop to finish.\<close>\<close>
  | StartingDiscovery "int option"            \<comment> \<open>\<^verbatim>\<open>Starting discovery...\<close>\<close>
  | DiscoveredChannels "int option" int int   \<comment> \<open>\<^verbatim>\<open>Discovered n new channels. Blacklisted m candidates.\<close>\<close>
  | DiscoveryFailed "int option" string       \<comment> \<open>the error's message\<close>
  | RunTotal int int int int                  \<comment> \<open>run, found, blacklisted, \<^verbatim>\<open>Total discovered: n.\<close>\<close>
  | LoopStoppedAfter int int      \<comment> \<open>\<^verbatim>\<open>Discovery loop stopped after n runs with m new channels.\<close>\<close>
  | LoopStopped                   \<comment> \<open>\<^verbatim>\<open>Discovery loop stopped.\<close>\<close>
  | StoppingAfterRun              \<comment> \<open>\<^verbatim>\<open>Stopping discovery after current run...\<close>\<close>
  | EnrichLimitPositive           \<comment> \<open>\<^verbatim>\<open>Enrichment limit must be a positive number.\<close>\<close>
  | EnrichStarted bool job_id "jsnum option" int  \<comment> \<open>auto-triggered, job, limit, skipped\<close>
  | EnrichFailed string           \<comment> \<open>the error's message\<close>
  | AutoEnrichQueued              \<comment> \<open>\<^verbatim>\<open>Auto-enrich queued until the current enrichment finishes.\<close>\<close>
  | SkippedRecently int           \<comment> \<open>\<^verbatim>\<open>Skipped n channels because they were recently enriched...\<close>\<close>
  | StreamMessage "string option" \<comment> \<open>an \<^verbatim>\<open>error\<close> event of the stream\<close>
  | StreamLost                    \<comment> \<open>\<^verbatim>\<open>Connection lost to enrichment stream.\<close>\<close>
  | StatsFailed                   \<comment> \<open>\<^verbatim>\<open>Failed to load statistics.\<close>\<close>
  | LoopRefreshed "string option" \<comment> \<open>\<^verbatim>\<open>Discovery loop stopped/completed/... Data refreshed.\<close>\<close>

text \<open>The body of \<^verbatim>\<open>notifyDiscoveryLoopComplete\<close>; an absent property is \<open>None\<close> or \<open>False\<close>.\<close>

record completion_request =
  r_runs :: int
  r_discovered :: int
  r_reason :: "string option"
  r_error :: bool
  r_message :: "string option"

datatype effect =
    StatusBar status_msg tone
  | ProgressBar "string option"      \<comment> \<open>\<^verbatim>\<open>setProgress\<close>: the job shown, or cleared\<close>
  | SummaryBar "(int \<times> int option \<times> int) option"  \<comment> \<open>\<^verbatim>\<open>setSummary\<close>: completed, requested, skipped; or cleared\<close>
  | CallDiscover discovery_inputs
  | CallFetchStats
  | CallFetchChannels category
  | CallStartEnrichment string "jsnum option" bool bool
  | CallNotifyStart
  | CallNotifyProgress int int
  | CallNotifyStop
  | CallNotifyComplete completion_request
  | OpenStream job_id
  | CloseStream
  | SetTimeoutFinalize nat           \<comment> \<open>\<^verbatim>\<open>setTimeout(() => this.tryFinalizeDiscoveryLoop(), ms)\<close>\<close>
  | Delay nat                        \<comment> \<open>\<^verbatim>\<open>await this.delay(ms)\<close>\<close>

text \<open>Replies of the server. A rejected promise is the first constructor or \<open>None\<close>.\<close>

datatype discover_reply = DiscoverFailed string | Discovered int int  \<comment> \<open>found, blacklisted\<close>

datatype enrich_reply = StartFailed string | Started job_id int int  \<comment> \<open>job, total, skipped\<close>

text \<open>
  The part of \<^verbatim>\<open>GET /api/stats\<close> that \<open>maybeRefreshAfterLoop\<close> reads. \<open>version\<close> is
  \<open>Some n\<close> exactly when \<^verbatim>\<open>typeof loop.version === 'number'\<close>; a count is \<open>None\<close> when
  it is missing or \<^verbatim>\<open>null\<close>.
\<close>

record server_stats =
  loop_running :: bool
  loop_last_completed_at :: "string option"
  loop_last_reason :: "string option"
  loop_version :: "jsnum option"
  totals_processing :: "jsnum option"
  enrichment_activeJobs :: "jsnum option"

record loop_stats =
  runs :: int
  found :: int

text \<open>\<^verbatim>\<open>this.discoveryLoopCompletionPayload\<close>, when not \<^verbatim>\<open>null\<close>.\<close>

record completion =
  c_runs :: int
  c_discovered :: int
  c_reason :: "string option"
  c_error :: bool
  c_message :: "string option"

record dashboard =
  activeTab :: category
  currentStats :: "server_stats option"          \<comment> \<open>\<^verbatim>\<open>this.stats\<close>\<close>
  eventSource :: "job_id option"
  enrichmentBusy :: bool
  discoveryLoopActive :: bool
  discoveryLoopStopping :: bool
  discoveryLoopStats :: loop_stats
  pendingAutoEnrich :: jsnum
  autoEnrichQueuedNotified :: bool
  discoverySettings :: discovery_settings
  activeDropdown :: "menu option"
  statsPromise :: bool                           \<comment> \<open>a stats request is in flight\<close>
  lastLoopCompletionVersion :: "jsnum option"
  discoveryLoopCompletionPayload :: "completion option"
  finalizingDiscoveryLoop :: bool
  discoveryLoopCompletionSent :: bool
  enrichButtonsDisabled :: bool                  \<comment> \<open>the three enrich buttons, set together\<close>
  discoverBtnDisabled :: bool
  discoverStopBtnDisabled :: bool
  discoverStopBtnHidden :: bool
  settingsModalOpen :: bool
  enrichForceToggle :: bool
  enrichNeverToggle :: bool
  finalizeTimers :: nat                          \<comment> \<open>pending \<^verbatim>\<open>setTimeout\<close> retries\<close>
  effects :: "effect list"

text \<open>The state the constructor sets up.\<close>

definition initialDashboard :: dashboard where
  "initialDashboard =
     \<lparr> activeTab = ACTIVE, currentStats = None, eventSource = None,
       enrichmentBusy = False, discoveryLoopActive = False, discoveryLoopStopping = False,
       discoveryLoopStats = \<lparr> runs = 0, found = 0 \<rparr>,
       pendingAutoEnrich = Fin 0, autoEnrichQueuedNotified = False,
       discoverySettings = defaultDiscoverySettingsState,
       activeDropdown = None, statsPromise = False, lastLoopCompletionVersion = None,
       discoveryLoopCompletionPayload = None, finalizingDiscoveryLoop = False,
       discoveryLoopCompletionSent = False,
       enrichButtonsDisabled = False, discoverBtnDisabled = False,
       discoverStopBtnDisabled = False, discoverStopBtnHidden = True,
       settingsModalOpen = False, enrichForceToggle = False, enrichNeverToggle = False,
       finalizeTimers = 0, effects = [] \<rparr>"

subsection \<open>Numbers of the orchestration code\<close>

text \<open>
  The finite numbers of JavaScript are the IEEE 754 doubles, and \<^verbatim>\<open>a + b\<close> is the exact sum
  rounded to the nearest double, ties to the even significand. \<open>toDouble\<close> is that
  rounding: \<open>exponentOf a\<close> is the \<open>e\<close> with \<open>2^e \<le> a < 2^(e+1)\<close>, the doubles
  around \<open>a\<close> are the multiples of \<open>2^(e-52)\<close> (of \<open>2^-1074\<close> below \<open>2^-1022\<close>), and a
  result of \<open>2^1024\<close> or more is an infinity.
\<close>

definition pow2 :: "int \<Rightarrow> rat" where
  "pow2 e = (if 0 \<le> e then 2 ^ nat e else 1 / 2 ^ nat (- e))"

function log2floor :: "int \<Rightarrow> nat" where
  "log2floor n = (if n < 2 then 0 else Suc (log2floor (n div 2)))"
  by pat_completeness auto
termination by (relation "measure nat") auto

declare log2floor.simps [simp del]

definition exponentOf :: "rat \<Rightarrow> int" where
  "exponentOf a =
     (if 1 \<le> a then int (log2floor \<lfloor>a\<rfloor>)
      else (let k = int (log2floor \<lfloor>1 / a\<rfloor>)
            in if pow2 (- k) \<le> a then - k else - k - 1))"

definition roundHalfEven :: "rat \<Rightarrow> int" where
  "roundHalfEven x =
     (let f = \<lfloor>x\<rfloor>; d = x - of_int f
      in if d < 1 / 2 then f else if 1 / 2 < d then f + 1 else if even f then f else f + 1)"

definition toDouble :: "rat \<Rightarrow> jsnum" where
  "toDouble r =
     (if r = 0 then Fin 0
      else (let a = \<bar>r\<bar>;
                e = max (exponentOf a) (- 1022);
                u = pow2 (e - 52);
                v = of_int (roundHalfEven (a / u)) * u
            in if 2 ^ 1024 \<le> v then (if 0 < r then PosInf else NegInf)
               else Fin (if 0 < r then v else - v)))"

text \<open>\<^verbatim>\<open>a + b\<close>\<close>

fun add_num :: "jsnum \<Rightarrow> jsnum \<Rightarrow> jsnum" where
  "add_num NaN y = NaN"
| "add_num x NaN = NaN"
| "add_num PosInf NegInf = NaN"
| "add_num NegInf PosInf = NaN"
| "add_num PosInf y = PosInf"
| "add_num x PosInf = PosInf"
| "add_num NegInf y = NegInf"
| "add_num x NegInf = NegInf"
| "add_num (Fin a) (Fin b) = toDouble (a + b)"

definition truthy :: "jsnum \<Rightarrow> bool" where
  "truthy n = (n \<noteq> NaN \<and> n \<noteq> Fin 0)"

definition orZero :: "jsnum \<Rightarrow> jsnum" where  \<comment> \<open>\<^verbatim>\<open>Number(n) || 0\<close> for a number\<close>
  "orZero n = (if truthy n then n else Fin 0)"

definition countOf :: "jsnum option \<Rightarrow> jsnum" where  \<comment> \<open>\<^verbatim>\<open>Number(x ?? 0) || 0\<close>\<close>
  "countOf x = (case x of None \<Rightarrow> Fin 0 | Some n \<Rightarrow> orZero n)"

definition strictEq :: "jsnum \<Rightarrow> jsnum option \<Rightarrow> bool" where
  \<comment> \<open>\<^verbatim>\<open>a === b\<close> for a number \<open>a\<close> and a number or \<^verbatim>\<open>null\<close> \<open>b\<close>\<close>
  "strictEq a b = (case b of None \<Rightarrow> False | Some n \<Rightarrow> a = n \<and> a \<noteq> NaN)"

subsection \<open>Notices, menus, statistics\<close>

definition emit :: "effect \<Rightarrow> dashboard \<Rightarrow> dashboard" where
  "emit e s = s\<lparr>effects := effects s @ [e]\<rparr>"

definition updateStatusBar :: "status_msg \<Rightarrow> tone \<Rightarrow> dashboard \<Rightarrow> dashboard" where
  "updateStatusBar message tn s = emit (StatusBar message tn) s"

definition closeDropdown :: "menu \<Rightarrow> dashboard \<Rightarrow> dashboard" where
  "closeDropdown menuEl s =
     (if activeDropdown s = Some menuEl then s\<lparr>activeDropdown := None\<rparr> else s)"

definition closeAllDropdowns :: "dashboard \<Rightarrow> dashboard" where
  "closeAllDropdowns s =
     (case activeDropdown s of None \<Rightarrow> s | Some m \<Rightarrow> closeDropdown m s)"

definition openDiscoverSettings :: "dashboard \<Rightarrow> dashboard" where
  "openDiscoverSettings s0 =
     (let s = closeAllDropdowns s0
      in if discoveryLoopActive s then updateStatusBar LoopRunningNoSettings Info s
         else s\<lparr>settingsModalOpen := True\<rparr>)"

text \<open>
  \<open>maybeRefreshAfterLoop\<close> up to its first \<^verbatim>\<open>await\<close>: the guards and the write of
  \<^verbatim>\<open>lastLoopCompletionVersion\<close>. The flag tells whether the method goes on to refresh.
  \<open>now\<close> is \<^verbatim>\<open>Date.now()\<close>.
\<close>

definition maybeRefreshAfterLoop_begin :: "server_stats \<Rightarrow> jsnum \<Rightarrow> dashboard \<Rightarrow> bool \<times> dashboard" where
  "maybeRefreshAfterLoop_begin stats now s =
     (let processingCount = countOf (totals_processing stats);
          activeJobs = countOf (enrichment_activeJobs stats)
      in if loop_running stats then (False, s)
         else if loop_last_completed_at stats = None \<or> loop_last_completed_at stats = Some [] then (False, s)
         else if gt_zero processingCount \<or> gt_zero activeJobs then (False, s)
         else (let version = loop_version stats
               in if (case version of None \<Rightarrow> False
                      | Some v \<Rightarrow> strictEq v (lastLoopCompletionVersion s))
                  then (False, s)
                  else (True, s\<lparr>lastLoopCompletionVersion :=
                                  Some (case version of Some v \<Rightarrow> v | None \<Rightarrow> now)\<rparr>)))"

text \<open>The rest of the method: the table reloads and the one notice.\<close>

definition maybeRefreshAfterLoop_finish :: "server_stats \<Rightarrow> dashboard \<Rightarrow> dashboard" where
  "maybeRefreshAfterLoop_finish stats s =
     (let s1 = emit (CallFetchChannels ACTIVE) s;
          s2 = (if activeTab s1 \<noteq> ACTIVE then emit (CallFetchChannels (activeTab s1)) s1 else s1)
      in updateStatusBar (LoopRefreshed (loop_last_reason stats))
           (if loop_last_reason stats = Some ''error'' then Error else Success) s2)"

definition maybeRefreshAfterLoop :: "server_stats \<Rightarrow> jsnum \<Rightarrow> dashboard \<Rightarrow> dashboard" where
  "maybeRefreshAfterLoop stats now s =
     (case maybeRefreshAfterLoop_begin stats now s of
        (True, s') \<Rightarrow> maybeRefreshAfterLoop_finish stats s'
      | (False, s') \<Rightarrow> s')"

text \<open>
  \<open>loadStats\<close>: the call, which joins a request in flight instead of sending another,
  and the settling of the request with the server's reply (\<open>None\<close>: the request failed).
\<close>

definition loadStats_begin :: "dashboard \<Rightarrow> dashboard" where
  "loadStats_begin s =
     (if statsPromise s then s else emit CallFetchStats (s\<lparr>statsPromise := True\<rparr>))"

definition loadStats_settle :: "server_stats option \<Rightarrow> jsnum \<Rightarrow> dashboard \<Rightarrow> dashboard" where
  "loadStats_settle reply now s =
     (case reply of
        Some stats \<Rightarrow> maybeRefreshAfterLoop stats now (s\<lparr>currentStats := Some stats\<rparr>)
      | None \<Rightarrow> updateStatusBar StatsFailed Error s)
     \<lparr>statsPromise := False\<rparr>"

definition loadStats :: "server_stats option \<Rightarrow> jsnum \<Rightarrow> dashboard \<Rightarrow> dashboard" where
  \<comment> \<open>\<^verbatim>\<open>await this.loadStats()\<close>\<close>
  "loadStats reply now s = loadStats_settle reply now (loadStats_begin s)"

subsection \<open>Enrichment\<close>

definition closeEventSource :: "dashboard \<Rightarrow> dashboard" where
  \<comment> \<open>\<^verbatim>\<open>this.eventSource?.close(); this.eventSource = null\<close>\<close>
  "closeEventSource s =
     (if eventSource s \<noteq> None then emit CloseStream (s\<lparr>eventSource := None\<rparr>) else s)"

definition openEventSource :: "job_id \<Rightarrow> dashboard \<Rightarrow> dashboard" where
  "openEventSource jobId s =
     (let s1 = closeEventSource s;
          s2 = emit (ProgressBar (Some jobId)) s1
      in emit (OpenStream jobId) (s2\<lparr>eventSource := Some jobId\<rparr>))"

text \<open>
  \<open>handleEnrich mode { limitOverride, autoTriggered }\<close>, with the reply of
  \<^verbatim>\<open>startEnrichment\<close>.
\<close>

definition handleEnrich :: "string \<Rightarrow> jsnum option \<Rightarrow> bool \<Rightarrow> enrich_reply \<Rightarrow> dashboard \<Rightarrow> dashboard" where
  "handleEnrich mode limitOverride autoTriggered reply s0 =
     (let s = closeDropdown EnrichMenu s0
      in if enrichmentBusy s then s
         else
           (let limitValue = (case limitOverride of
                                Some l \<Rightarrow> Some l
                              | None \<Rightarrow> enrichLimit (discoverySettings s))
            in if (case limitValue of None \<Rightarrow> False | Some v \<Rightarrow> isNaN v \<or> le_zero v)
               then updateStatusBar EnrichLimitPositive Error s
               else
                 (let s1 = s\<lparr>enrichmentBusy := True, autoEnrichQueuedNotified := False,
                              enrichButtonsDisabled := True\<rparr>;
                      s2 = emit (CallStartEnrichment mode limitValue
                                   (enrichForceToggle s1) (enrichNeverToggle s1)) s1
                  in case reply of
                       Started jobId jobTotal skipped \<Rightarrow>
                         openEventSource jobId
                           (emit (SummaryBar None)
                              (updateStatusBar (EnrichStarted autoTriggered jobId limitValue skipped)
                                 Success s2))
                     | StartFailed msg \<Rightarrow>
                         (let s3 = s2\<lparr>enrichmentBusy := False, enrichButtonsDisabled := False\<rparr>;
                              s4 = (case limitValue of
                                      Some v \<Rightarrow>
                                        if autoTriggered \<and> gt_zero v
                                        then s3\<lparr>pendingAutoEnrich := add_num (pendingAutoEnrich s3) v,
                                                autoEnrichQueuedNotified := False\<rparr>
                                        else s3
                                    | None \<Rightarrow> s3)
                          in updateStatusBar (EnrichFailed msg) Error s4))))"

definition isAutoEnrichEnabled :: "dashboard \<Rightarrow> bool" where
  "isAutoEnrichEnabled s = autoEnrichEnabled (discoverySettings s)"

definition triggerAutoEnrich :: "jsnum \<Rightarrow> enrich_reply \<Rightarrow> dashboard \<Rightarrow> dashboard" where
  "triggerAutoEnrich newChannelsCount reply s =
     (let count = orZero newChannelsCount
      in if le_zero count then s
         else if \<not> isAutoEnrichEnabled s then s\<lparr>pendingAutoEnrich := Fin 0\<rparr>
         else if enrichmentBusy s then
           (let s1 = s\<lparr>pendingAutoEnrich := add_num (pendingAutoEnrich s) count\<rparr>
            in if \<not> autoEnrichQueuedNotified s1
               then (updateStatusBar AutoEnrichQueued Info s1)\<lparr>autoEnrichQueuedNotified := True\<rparr>
               else s1)
         else handleEnrich
                (if autoEnrichMode (discoverySettings s) = ''full'' then ''full'' else ''email_only'')
                (Some count) True reply s)"

definition processPendingAutoEnrich :: "enrich_reply \<Rightarrow> dashboard \<Rightarrow> dashboard" where
  "processPendingAutoEnrich reply s =
     (if \<not> truthy (pendingAutoEnrich s) \<or> le_zero (pendingAutoEnrich s)
      then s\<lparr>pendingAutoEnrich := Fin 0\<rparr>
      else if \<not> isAutoEnrichEnabled s then s\<lparr>pendingAutoEnrich := Fin 0\<rparr>
      else (let queued = pendingAutoEnrich s
            in triggerAutoEnrich queued reply
                 (s\<lparr>pendingAutoEnrich := Fin 0, autoEnrichQueuedNotified := False\<rparr>)))"

subsection \<open>Finalising a finished loop\<close>

definition requestOf :: "completion \<Rightarrow> completion_request" where
  "requestOf payload =
     \<lparr> r_runs = c_runs payload, r_discovered = c_discovered payload,
       r_reason = c_reason payload, r_error = c_error payload,
       r_message = c_message payload \<rparr>"

text \<open>
  \<open>tryFinalizeDiscoveryLoop\<close>, with the outcome of \<^verbatim>\<open>notifyDiscoveryLoopComplete\<close>
  (\<open>True\<close>: the request succeeded). A failed request schedules one more call of the
  method after 3000 ms.
\<close>

definition tryFinalizeDiscoveryLoop :: "bool \<Rightarrow> dashboard \<Rightarrow> dashboard" where
  "tryFinalizeDiscoveryLoop notified s =
     (case discoveryLoopCompletionPayload s of
        None \<Rightarrow> s
      | Some payload \<Rightarrow>
          if discoveryLoopActive s \<or> enrichmentBusy s \<or> gt_zero (pendingAutoEnrich s) then s
          else if finalizingDiscoveryLoop s then s
          else
            (let s1 = s\<lparr>finalizingDiscoveryLoop := True\<rparr>;
                 s2 = emit (CallNotifyComplete (requestOf payload)) s1;
                 s3 = (if notified
                       then s2\<lparr>discoveryLoopCompletionPayload := None,
                               discoveryLoopCompletionSent := True\<rparr>
                       else emit (SetTimeoutFinalize 3000)
                              (s2\<lparr>finalizeTimers := Suc (finalizeTimers s2)\<rparr>))
             in s3\<lparr>finalizingDiscoveryLoop := False\<rparr>))"



text \<open>
  \<open>queueDiscoveryLoopCompletion { runs, discovered, reason, error }\<close>: the record is
  stored, then \<open>tryFinalizeDiscoveryLoop\<close> is called.
\<close>

definition storeCompletion :: "int \<Rightarrow> int \<Rightarrow> string \<Rightarrow> bool \<Rightarrow> dashboard \<Rightarrow> dashboard" where
  "storeCompletion rs discovered reason err s =
     s\<lparr>discoveryLoopCompletionPayload :=
          Some \<lparr> c_runs = rs, c_discovered = discovered,
                 c_reason = (if reason = [] then None else Some reason),
                 c_error = err, c_message = None \<rparr>,
        discoveryLoopCompletionSent := False\<rparr>"


subsection \<open>The enrichment stream\<close>

text \<open>
  A \<^verbatim>\<open>progress\<close> event of the stream; \<open>ev_done\<close> is the truthiness of \<^verbatim>\<open>payload.done\<close>.
\<close>

record progress_event =
  ev_jobId :: job_id
  ev_completed :: int
  ev_skipped :: "int option"
  ev_requested :: "int option"
  ev_done :: bool

text \<open>What the \<^verbatim>\<open>done\<close> branch waits for, in order.\<close>

record done_replies =
  dr_stats :: "server_stats option"
  dr_now :: jsnum
  dr_enrich :: enrich_reply
  dr_notified :: bool

definition onProgress :: "progress_event \<Rightarrow> done_replies \<Rightarrow> dashboard \<Rightarrow> dashboard" where
  "onProgress ev replies s0 =
     (let s = emit (ProgressBar (Some (ev_jobId ev))) s0
      in if \<not> ev_done ev then s
         else
           (let s1 = closeEventSource s;
                s2 = s1\<lparr>enrichmentBusy := False, enrichButtonsDisabled := False\<rparr>;
                s3 = emit (ProgressBar None) s2;
                skipped = (case ev_skipped ev of None \<Rightarrow> 0 | Some n \<Rightarrow> n);
                s4 = emit (SummaryBar (Some (ev_completed ev, ev_requested ev, skipped))) s3;
                s5 = (if 0 < skipped then updateStatusBar (SkippedRecently skipped) Info s4 else s4);
                s6 = loadStats (dr_stats replies) (dr_now replies) s5;
                s7 = emit (CallFetchChannels ACTIVE) s6;
                s8 = (if activeTab s7 \<noteq> ACTIVE then emit (CallFetchChannels (activeTab s7)) s7 else s7);
                s9 = s8\<lparr>autoEnrichQueuedNotified := False\<rparr>;
                s10 = processPendingAutoEnrich (dr_enrich replies) s9
            in tryFinalizeDiscoveryLoop (dr_notified replies) s10))"

text \<open>The \<^verbatim>\<open>onerror\<close> handler of the stream.\<close>

definition onStreamError :: "dashboard \<Rightarrow> dashboard" where
  "onStreamError s =
     (let s1 = emit (ProgressBar None) s;
          s2 = updateStatusBar StreamLost Error s1;
          s3 = closeEventSource s2
      in s3\<lparr>enrichmentBusy := False, enrichButtonsDisabled := False\<rparr>)"

text \<open>
  The \<^verbatim>\<open>onmessage\<close> handler: a \<^verbatim>\<open>channel\<close> event patches table rows, which are not
  part of this state; a \<^verbatim>\<open>progress\<close> event is handled above; an \<^verbatim>\<open>error\<close> event
  shows its message.
\<close>

datatype stream_event =
    ChannelEvent
  | ProgressEvent progress_event
  | ErrorEvent "string option"

fun onmessage :: "stream_event \<Rightarrow> done_replies \<Rightarrow> dashboard \<Rightarrow> dashboard" where
  "onmessage ChannelEvent replies s = s"
| "onmessage (ProgressEvent ev) replies s = onProgress ev replies s"
| "onmessage (ErrorEvent msg) replies s = updateStatusBar (StreamMessage msg) Error s"

subsection \<open>One discovery run\<close>

record run_replies =
  rr_discover :: discover_reply
  rr_stats :: "server_stats option"
  rr_now :: jsnum
  rr_enrich :: enrich_reply

text \<open>
  \<open>performDiscoveryRun\<close> up to the \<^verbatim>\<open>await\<close> of \<^verbatim>\<open>discoverChannels\<close>, and from the
  reply on. The result is \<^verbatim>\<open>null\<close> (\<open>None\<close>) when the request failed, else the response's
  \<^verbatim>\<open>found\<close> and \<^verbatim>\<open>blacklisted\<close>.
\<close>

definition performDiscoveryRun_begin :: "discovery_inputs \<Rightarrow> int option \<Rightarrow> dashboard \<Rightarrow> dashboard" where
  "performDiscoveryRun_begin inputs label s =
     emit (CallDiscover inputs) (updateStatusBar (StartingDiscovery label) Info s)"

definition performDiscoveryRun_resume ::
  "int option \<Rightarrow> bool \<Rightarrow> run_replies \<Rightarrow> dashboard \<Rightarrow> (int \<times> int) option \<times> dashboard" where
  "performDiscoveryRun_resume label deferStatusUpdate replies s =
     (case rr_discover replies of
        DiscoverFailed msg \<Rightarrow> (None, updateStatusBar (DiscoveryFailed label msg) Error s)
      | Discovered fnd blacklisted \<Rightarrow>
          (let s1 = (if \<not> deferStatusUpdate
                     then updateStatusBar (DiscoveredChannels label fnd blacklisted) Success s
                     else s);
               s2 = loadStats (rr_stats replies) (rr_now replies) s1;
               s3 = emit (CallFetchChannels ACTIVE) s2;
               s4 = triggerAutoEnrich (Fin (of_int fnd)) (rr_enrich replies) s3
           in (Some (fnd, blacklisted), s4)))"

definition performDiscoveryRun ::
  "discovery_inputs \<Rightarrow> int option \<Rightarrow> bool \<Rightarrow> run_replies \<Rightarrow> dashboard
     \<Rightarrow> (int \<times> int) option \<times> dashboard" where
  "performDiscoveryRun inputs label deferStatusUpdate replies s =
     performDiscoveryRun_resume label deferStatusUpdate replies
       (performDiscoveryRun_begin inputs label s)"

subsection \<open>The discovery loop\<close>

definition collectDiscoveryInputsFromSettings :: "dashboard \<Rightarrow> discovery_inputs option \<times> dashboard" where
  "collectDiscoveryInputsFromSettings s =
     (let settings = discoverySettings s
      in if keywordList settings = [] then (None, updateStatusBar ProvideKeyword Error s)
         else (Some \<lparr> in_keywords = keywordList settings,
                      in_perKeyword =
                        max_num (Fin 1)
                          (floor_num (if truthy (perKeyword settings) then perKeyword settings else Fin 1)),
                      in_denyLanguages = denyLanguages settings,
                      in_lastUploadMaxAgeDays = lastUploadMaxAgeDays settings \<rparr>, s))"

definition setDiscoveryLoopRunningState :: "bool \<Rightarrow> dashboard \<Rightarrow> dashboard" where
  "setDiscoveryLoopRunningState running s =
     s\<lparr>discoveryLoopActive := running, discoverBtnDisabled := running,
       discoverStopBtnHidden := (\<not> running), discoverStopBtnDisabled := False\<rparr>"

definition stopDiscoveryLoop :: "dashboard \<Rightarrow> dashboard" where
  "stopDiscoveryLoop s =
     (if \<not> discoveryLoopActive s \<or> discoveryLoopStopping s then s
      else emit CallNotifyStop
             (updateStatusBar StoppingAfterRun Info
                (s\<lparr>discoveryLoopStopping := True, discoverStopBtnDisabled := True\<rparr>)))"

text \<open>
  What the user can do to the loop while it waits: press Stop, or press Discover
  (which opens the settings, or refuses to while the loop runs).
\<close>

datatype click = ClickStop | ClickDiscover

fun applyClick :: "click \<Rightarrow> dashboard \<Rightarrow> dashboard" where
  "applyClick ClickStop s = stopDiscoveryLoop s"
| "applyClick ClickDiscover s = openDiscoverSettings s"

definition applyClicks :: "click list \<Rightarrow> dashboard \<Rightarrow> dashboard" where
  "applyClicks cs s = fold applyClick cs s"

text \<open>
  One turn of the \<^verbatim>\<open>while\<close> loop as the world sees it: the replies to the run, and the
  clicks that arrive while the loop waits for \<^verbatim>\<open>discoverChannels\<close>, for
  \<^verbatim>\<open>notifyDiscoveryLoopProgress\<close> and for the 2000 ms delay.
\<close>

record iteration =
  it_clicks_run :: "click list"
  it_replies :: run_replies
  it_clicks_report :: "click list"
  it_clicks_delay :: "click list"

text \<open>
  The body of the \<^verbatim>\<open>while\<close> loop, once round. \<open>Inl (loopError, s)\<close> is a
  \<^verbatim>\<open>break\<close>; \<open>Inr s\<close> reaches the end of the body.
\<close>

definition loopBody :: "discovery_inputs \<Rightarrow> iteration \<Rightarrow> dashboard \<Rightarrow> (bool \<times> dashboard) + dashboard" where
  "loopBody inputs it s =
     (let runIndex = runs (discoveryLoopStats s) + 1;
          s1 = performDiscoveryRun_begin inputs (Some runIndex) s;
          s2 = applyClicks (it_clicks_run it) s1
      in case performDiscoveryRun_resume (Some runIndex) True (it_replies it) s2 of
           (None, s3) \<Rightarrow> Inl (True, s3)
         | (Some (fnd, blacklisted), s3) \<Rightarrow>
             (let s4 = s3\<lparr>discoveryLoopStats :=
                            \<lparr> runs = runs (discoveryLoopStats s3) + 1,
                              found = found (discoveryLoopStats s3) + fnd \<rparr>\<rparr>;
                  s5 = emit (CallNotifyProgress (runs (discoveryLoopStats s4))
                               (found (discoveryLoopStats s4))) s4;
                  s6 = applyClicks (it_clicks_report it) s5;
                  s7 = updateStatusBar
                         (RunTotal runIndex fnd blacklisted (found (discoveryLoopStats s6)))
                         Success s6
              in if discoveryLoopStopping s7 then Inl (False, s7)
                 else
                   (let s8 = applyClicks (it_clicks_delay it) (emit (Delay 2000) s7)
                    in if discoveryLoopStopping s8 then Inl (False, s8)
                       else Inr s8)))"

text \<open>
  The \<^verbatim>\<open>while (!this.discoveryLoopStopping)\<close> loop. The loop can go on for ever, so it
  is run against a finite schedule: \<open>Exited (loopError, s)\<close> when it leaves the
  \<^verbatim>\<open>while\<close> within the schedule, \<open>Running s\<close> when the schedule ends while the loop is
  about to start another run.
\<close>

datatype 'a progress = Running dashboard | Exited 'a

fun discoveryLoop :: "discovery_inputs \<Rightarrow> iteration list \<Rightarrow> dashboard \<Rightarrow> (bool \<times> dashboard) progress" where
  "discoveryLoop inputs [] s =
     (if discoveryLoopStopping s then Exited (False, s) else Running s)"
| "discoveryLoop inputs (it # its) s =
     (if discoveryLoopStopping s then Exited (False, s)
      else (case loopBody inputs it s of
              Inl broken \<Rightarrow> Exited broken
            | Inr s' \<Rightarrow> discoveryLoop inputs its s'))"

text \<open>The \<^verbatim>\<open>finally\<close> block, up to and including \<open>queueDiscoveryLoopCompletion\<close>.\<close>

definition loopFinally_store :: "bool \<Rightarrow> dashboard \<Rightarrow> dashboard" where
  "loopFinally_store loopError s =
     (let stopRequested = discoveryLoopStopping s;
          finalRuns = runs (discoveryLoopStats s);
          finalFound = found (discoveryLoopStats s);
          s1 = setDiscoveryLoopRunningState False (s\<lparr>discoveryLoopStopping := False\<rparr>);
          s2 = (if \<not> loopError
                then (if 0 < finalRuns
                      then updateStatusBar (LoopStoppedAfter finalRuns finalFound) Info s1
                      else updateStatusBar LoopStopped Info s1)
                else s1);
          completionReason =
            (if loopError then ''error'' else if stopRequested then ''stopped'' else ''completed'')
      in storeCompletion finalRuns finalFound completionReason loopError s2)"

definition loopFinally :: "bool \<Rightarrow> bool \<Rightarrow> dashboard \<Rightarrow> dashboard" where
  "loopFinally loopError notified s =
     tryFinalizeDiscoveryLoop notified (loopFinally_store loopError s)"

text \<open>What \<open>startDiscoveryLoop\<close> meets while it runs.\<close>

record loop_schedule =
  ls_clicks_start :: "click list"     \<comment> \<open>while \<^verbatim>\<open>notifyDiscoveryLoopStart\<close> is awaited\<close>
  ls_iterations :: "iteration list"
  ls_notified :: bool                 \<comment> \<open>the outcome of the completion request, if one is sent\<close>

text \<open>\<open>startDiscoveryLoop\<close> from the guard to the first test of the \<^verbatim>\<open>while\<close>.\<close>

definition startDiscoveryLoop_enter :: "click list \<Rightarrow> dashboard \<Rightarrow> dashboard" where
  "startDiscoveryLoop_enter clicks s =
     (let s1 = s\<lparr>discoveryLoopStats := \<lparr> runs = 0, found = 0 \<rparr>,
                 discoveryLoopStopping := False,
                 discoveryLoopCompletionPayload := None,
                 discoveryLoopCompletionSent := False,
                 finalizingDiscoveryLoop := False\<rparr>;
          s2 = setDiscoveryLoopRunningState True s1;
          s3 = updateStatusBar LoopStarted Info s2;
          s4 = emit CallNotifyStart s3
      in applyClicks clicks s4)"

definition startDiscoveryLoop ::
  "discovery_inputs option \<Rightarrow> loop_schedule \<Rightarrow> dashboard \<Rightarrow> dashboard progress" where
  "startDiscoveryLoop initialInputs sched s =
     (if discoveryLoopActive s then Exited (updateStatusBar LoopAlreadyRunning Info s)
      else
        (case (case initialInputs of
                 Some i \<Rightarrow> (Some i, s)
               | None \<Rightarrow> collectDiscoveryInputsFromSettings s) of
           (None, s') \<Rightarrow> Exited s'
         | (Some inputs, s') \<Rightarrow>
             (case discoveryLoop inputs (ls_iterations sched)
                     (startDiscoveryLoop_enter (ls_clicks_start sched) s') of
                Running s'' \<Rightarrow> Running s''
              | Exited (loopError, s'') \<Rightarrow> Exited (loopFinally loopError (ls_notified sched) s''))))"

section \<open>Notions the properties are stated with\<close>

text \<open>
  When \<open>maybeRefreshAfterLoop\<close> is to refresh, in the words of the specification: the
  loop is not running, a completion time stamp exists, no enrichment is processing, and
  the version counter of the statistics differs from the last one seen. Statistics that
  carry no numeric version count as a new completion.
\<close>

definition refreshDue :: "server_stats \<Rightarrow> dashboard \<Rightarrow> bool" where
  "refreshDue stats s =
     (\<not> loop_running stats
      \<and> loop_last_completed_at stats \<noteq> None \<and> loop_last_completed_at stats \<noteq> Some []
      \<and> \<not> gt_zero (countOf (totals_processing stats))
      \<and> \<not> gt_zero (countOf (enrichment_activeJobs stats))
      \<and> (case loop_version stats of
            None \<Rightarrow> True
          | Some v \<Rightarrow> \<not> strictEq v (lastLoopCompletionVersion s)))"

text \<open>The number of "loop finished" notices shown so far.\<close>

definition refreshNotices :: "dashboard \<Rightarrow> nat" where
  "refreshNotices s =
     length (filter (\<lambda>e. case e of StatusBar (LoopRefreshed r) t \<Rightarrow> True | _ \<Rightarrow> False) (effects s))"

text \<open>A series of polls, each with its statistics and its clock.\<close>

definition pollAll :: "(server_stats \<times> jsnum) list \<Rightarrow> dashboard \<Rightarrow> dashboard" where
  "pollAll polls s = fold (\<lambda>(stats, now). maybeRefreshAfterLoop stats now) polls s"

text \<open>Statistics of a loop that was stopped, with completion version 7.\<close>

definition stats7 :: server_stats where
  "stats7 = \<lparr> loop_running = False, loop_last_completed_at = Some ''2024-05-01T10:00:00Z'',
      loop_last_reason = Some ''stopped'', loop_version = Some (Fin 7),
      totals_processing = Some (Fin 0), enrichment_activeJobs = None \<rparr>"

subsection \<open>The loop, seen from outside\<close>

text \<open>The number of discovery requests sent so far.\<close>

definition discoverCalls :: "dashboard \<Rightarrow> nat" where
  "discoverCalls s =
     length (filter (\<lambda>e. case e of CallDiscover i \<Rightarrow> True | _ \<Rightarrow> False) (effects s))"

text \<open>What the loop tests and counts, and the number of requests it has sent.\<close>

definition loopView :: "dashboard \<Rightarrow> bool \<times> bool \<times> loop_stats \<times> nat" where
  "loopView s =
     (discoveryLoopActive s, discoveryLoopStopping s, discoveryLoopStats s, discoverCalls s)"

text \<open>Stop was pressed at some moment of this turn of the loop.\<close>

definition stopClicked :: "iteration \<Rightarrow> bool" where
  "stopClicked it =
     (ClickStop \<in> set (it_clicks_run it) \<union> set (it_clicks_report it) \<union> set (it_clicks_delay it))"

text \<open>
  When and how a loop that starts its first run leaves the \<^verbatim>\<open>while\<close>, read off the
  schedule alone: the found-counts of the runs completed before the exit, and whether the
  exit is the \<^verbatim>\<open>break\<close> after a failed run. \<open>None\<close>: the schedule ends first.
\<close>

fun loopExit :: "iteration list \<Rightarrow> (int list \<times> bool) option" where
  "loopExit [] = None"
| "loopExit (it # its) =
     (case rr_discover (it_replies it) of
        DiscoverFailed msg \<Rightarrow> Some ([], True)
      | Discovered f b \<Rightarrow>
          if stopClicked it then Some ([f], False)
          else (case loopExit its of
                  None \<Rightarrow> None
                | Some (fs, err) \<Rightarrow> Some (f # fs, err)))"

text \<open>The same for the whole of \<open>startDiscoveryLoop\<close>: Stop may be pressed before the first run.\<close>

definition loopOutcome :: "loop_schedule \<Rightarrow> (int list \<times> bool) option" where
  "loopOutcome sched =
     (if ClickStop \<in> set (ls_clicks_start sched) then Some ([], False)
      else loopExit (ls_iterations sched))"

text \<open>
  The completion record the specification asks for: the number of completed runs, the sum
  of what they found, and the reason.
\<close>

definition completionOf :: "int list \<times> bool \<Rightarrow> completion" where
  "completionOf out =
     \<lparr> c_runs = int (length (fst out)), c_discovered = sum_list (fst out),
       c_reason = Some (if snd out then ''error'' else ''stopped''),
       c_error = snd out, c_message = None \<rparr>"

text \<open>A turn whose run succeeds and in which Stop is not pressed, and what it finds.\<close>

definition foundOf :: "iteration \<Rightarrow> int" where
  "foundOf it = (case rr_discover (it_replies it) of Discovered f b \<Rightarrow> f | DiscoverFailed msg \<Rightarrow> 0)"

definition quietRun :: "iteration \<Rightarrow> bool" where
  "quietRun it =
     (\<not> stopClicked it
      \<and> (case rr_discover (it_replies it) of Discovered f b \<Rightarrow> True | DiscoverFailed msg \<Rightarrow> False))"

text \<open>
  The scenario of the specification: every run finds two channels, auto-enrich is off, and
  Stop is pressed during the second run. The completion request is taken to fail, so that
  the queued record stays in the state.
\<close>

definition inputs0 :: discovery_inputs where
  "inputs0 = \<lparr> in_keywords = [''crypto''], in_perKeyword = Fin 5, in_denyLanguages = [],
      in_lastUploadMaxAgeDays = None \<rparr>"

definition quietIteration :: "int \<Rightarrow> iteration" where
  "quietIteration f =
     \<lparr> it_clicks_run = [],
       it_replies = \<lparr> rr_discover = Discovered f 0, rr_stats = None, rr_now = Fin 0,
                      rr_enrich = StartFailed [] \<rparr>,
       it_clicks_report = [], it_clicks_delay = [] \<rparr>"

definition stopDuringRun :: "int \<Rightarrow> iteration" where
  "stopDuringRun f = (quietIteration f)\<lparr>it_clicks_run := [ClickStop]\<rparr>"

definition scenario :: loop_schedule where
  "scenario = \<lparr> ls_clicks_start = [],
                 ls_iterations = [quietIteration 2, stopDuringRun 2, quietIteration 2],
                 ls_notified = False \<rparr>"

subsection \<open>A turn of the loop with and without Stop\<close>

text \<open>
  What pressing Stop leaves behind: the two flags it sets, its notice and its request.
  \<open>withoutStop\<close> clears them, so that two states which differ by a Stop alone become
  equal.
\<close>

definition stopNotice :: "effect \<Rightarrow> bool" where
  "stopNotice e = (e = StatusBar StoppingAfterRun Info \<or> e = CallNotifyStop)"

definition withoutStop :: "dashboard \<Rightarrow> dashboard" where
  "withoutStop s =
     s\<lparr>discoveryLoopStopping := False, discoverStopBtnDisabled := False,
       effects := filter (\<lambda>e. \<not> stopNotice e) (effects s)\<rparr>"

text \<open>
  The same turn of the loop with no Stop pressed during the run or the progress report,
  and nothing pressed during the delay.
\<close>

definition unstopped :: "iteration \<Rightarrow> iteration" where
  "unstopped it =
     \<lparr> it_clicks_run = filter (\<lambda>c. c \<noteq> ClickStop) (it_clicks_run it),
       it_replies = it_replies it,
       it_clicks_report = filter (\<lambda>c. c \<noteq> ClickStop) (it_clicks_report it),
       it_clicks_delay = [] \<rparr>"

subsection \<open>Enrichment and finalization, seen from outside\<close>

text \<open>
  The requests that matter for the coordination of enrichment and loop completion, in the
  order in which they were issued: enrichment starts, completion notifications, and the
  timers that re-run \<^verbatim>\<open>tryFinalizeDiscoveryLoop\<close>.
\<close>

definition orchestrationCalls :: "dashboard \<Rightarrow> effect list" where
  "orchestrationCalls s =
     filter (\<lambda>e. case e of
                  CallStartEnrichment m l f n \<Rightarrow> True
                | CallNotifyComplete r \<Rightarrow> True
                | SetTimeoutFinalize d \<Rightarrow> True
                | _ \<Rightarrow> False) (effects s)"

text \<open>
  The fields that the enrichment queue and the finalization read or write, together with
  the requests above. Status messages, progress bars and table reloads leave it unchanged.
\<close>

definition coreView ::
  "dashboard \<Rightarrow> (bool \<times> jsnum \<times> discovery_settings \<times> bool \<times> bool)
      \<times> (bool \<times> completion option \<times> bool \<times> bool \<times> nat) \<times> effect list" where
  "coreView s =
     ((enrichmentBusy s, pendingAutoEnrich s, discoverySettings s,
       enrichForceToggle s, enrichNeverToggle s),
      (discoveryLoopActive s, discoveryLoopCompletionPayload s, finalizingDiscoveryLoop s,
       discoveryLoopCompletionSent s, finalizeTimers s),
      orchestrationCalls s)"

text \<open>
  The enrichment start that \<^verbatim>\<open>triggerAutoEnrich\<close> issues for \<open>t\<close> channels: the mode of
  the settings, \<open>t\<close> as the limit, and the two toggles of the page.
\<close>

definition autoMode :: "dashboard \<Rightarrow> string" where
  "autoMode s = (if autoEnrichMode (discoverySettings s) = ''full'' then ''full'' else ''email_only'')"

definition autoStart :: "dashboard \<Rightarrow> rat \<Rightarrow> effect" where
  "autoStart s t =
     CallStartEnrichment (autoMode s) (Some (Fin t)) (enrichForceToggle s) (enrichNeverToggle s)"






subsection \<open>Finalization, seen from outside\<close>

text \<open>
  A completion record is queued and nothing holds its delivery back: the next call of
  \<^verbatim>\<open>tryFinalizeDiscoveryLoop\<close> sends it.
\<close>

definition awaitingFinalize :: "completion \<Rightarrow> dashboard \<Rightarrow> bool" where
  "awaitingFinalize c s =
     (discoveryLoopCompletionPayload s = Some c \<and> \<not> discoveryLoopActive s
      \<and> \<not> enrichmentBusy s \<and> \<not> gt_zero (pendingAutoEnrich s)
      \<and> \<not> finalizingDiscoveryLoop s)"






section \<open>Properties of the unique-email filter\<close>











subsection \<open>What the filter returns\<close>



section \<open>Properties of the discovery settings\<close>

lemma floor_pos_int: "1 \<le> (r::rat) \<Longrightarrow> intAtLeastOne (Fin (of_int \<lfloor>r\<rfloor>))"
  by (simp add: intAtLeastOne_def le_floor_iff)

lemma floor_num_shape:
  "gt_zero n \<Longrightarrow> (\<forall>r. n = Fin r \<longrightarrow> 1 \<le> r) \<Longrightarrow> floor_num n = PosInf \<or> intAtLeastOne (floor_num n)"
  by (cases n) (auto simp: floor_pos_int)

lemma positiveFloorOrNull_shape:
  assumes "\<not> betweenZeroAndOne cv v"
  shows "positiveFloorOrNull cv v = None \<or> positiveFloorOrNull cv v = Some PosInf
       \<or> (\<exists>n. positiveFloorOrNull cv v = Some n \<and> intAtLeastOne n)"
proof (cases v)
  case (JNum n)
  show ?thesis
  proof (cases "gt_zero n")
    case True
    have "\<forall>r. n = Fin r \<longrightarrow> 1 \<le> r" using assms True JNum by (auto simp: betweenZeroAndOne_def)
    from floor_num_shape [OF True this] True JNum show ?thesis by auto
  next
    case False
    then show ?thesis using JNum by simp
  qed
next
  case (JStr s)
  let ?p = "strToNum cv s"
  show ?thesis
  proof (cases "trim s \<noteq> [] \<and> \<not> isNaN ?p \<and> gt_zero ?p")
    case True
    have "\<forall>r. ?p = Fin r \<longrightarrow> 1 \<le> r" using assms True JStr by (auto simp: betweenZeroAndOne_def)
    from floor_num_shape [of ?p, OF _ this] True JStr show ?thesis by (auto simp: Let_def)
  next
    case False
    then show ?thesis using JStr by (auto simp: Let_def)
  qed
qed simp_all

lemma perKeyword_shape:
  "perKeyword (normalizeDiscoverySettings cv raw) = PosInf
   \<or> intAtLeastOne (perKeyword (normalizeDiscoverySettings cv raw))"
proof -
  let ?x = "toNumber cv (getProp raw ''perKeyword'')"
  have d: "intAtLeastOne (Fin 5)" by (simp add: intAtLeastOne_def)
  have "max_num (Fin 1) (floor_num ?x) = PosInf \<or> intAtLeastOne (max_num (Fin 1) (floor_num ?x))"
    if "\<not> isNaN ?x" "\<not> le_zero ?x"
    using that by (cases ?x) (auto simp: isNaN_def intAtLeastOne_def max_def le_floor_iff)
  then show ?thesis using d
    by (auto simp: normalizeDiscoverySettings_def Let_def defaultDiscoverySettingsState_def)
qed

lemma positiveFloorOrNull_zero:
  assumes "betweenZeroAndOne cv v"
  shows "positiveFloorOrNull cv v = Some (Fin 0)"
proof (cases v)
  case (JNum n)
  with assms obtain r where "n = Fin r" "0 < r" "r < 1"
    by (cases n) (auto simp: betweenZeroAndOne_def)
  then show ?thesis using JNum by (simp add: floor_eq_iff)
next
  case (JStr s)
  with assms obtain r where "trim s \<noteq> []" "strToNum cv s = Fin r" "0 < r" "r < 1"
    by (cases "strToNum cv s") (auto simp: betweenZeroAndOne_def)
  then show ?thesis using JStr by (simp add: Let_def isNaN_def floor_eq_iff)
qed (use assms in \<open>simp_all add: betweenZeroAndOne_def\<close>)

subsection \<open>The shape of normalised settings\<close>

text \<open>
  What \<open>normalizeDiscoverySettings\<close> returns for every raw object: the mode, the flags
  and the keyword list are as wanted, and each numeric field is as wanted but for two
  escapes. \<^verbatim>\<open>Infinity\<close> passes every guard and every \<^verbatim>\<open>Math.floor\<close>; and a raw limit
  strictly between 0 and 1, and only such a limit, comes back as 0.
\<close>

lemma normalizeDiscoverySettings_fields:
  fixes cv :: conversions and raw :: jsobj
  defines "st \<equiv> normalizeDiscoverySettings cv raw"
  shows "(intAtLeastOne (perKeyword st) \<or> perKeyword st = PosInf)
       \<and> (nullOrIntAtLeastOne (lastUploadMaxAgeDays st) \<or> lastUploadMaxAgeDays st = Some PosInf
            \<or> lastUploadMaxAgeDays st = Some (Fin 0))
       \<and> (lastUploadMaxAgeDays st = Some (Fin 0)
            \<longleftrightarrow> betweenZeroAndOne cv (getProp raw ''lastUploadMaxAgeDays''))
       \<and> (nullOrIntAtLeastOne (enrichLimit st) \<or> enrichLimit st = Some PosInf
            \<or> enrichLimit st = Some (Fin 0))
       \<and> (enrichLimit st = Some (Fin 0) \<longleftrightarrow> betweenZeroAndOne cv (getProp raw ''enrichLimit''))
       \<and> (autoEnrichMode st = ''full'' \<or> autoEnrichMode st = ''email_only'')
       \<and> autoEnrichEnabled st = toBoolean (getProp raw ''autoEnrichEnabled'')
       \<and> runUntilStopped st = toBoolean (getProp raw ''runUntilStopped'')
       \<and> keywordList st = parseDiscoveryKeywords (keywordsText st)"
proof -
  have lim: "(nullOrIntAtLeastOne (positiveFloorOrNull cv v) \<or> positiveFloorOrNull cv v = Some PosInf
              \<or> positiveFloorOrNull cv v = Some (Fin 0))
           \<and> (positiveFloorOrNull cv v = Some (Fin 0) \<longleftrightarrow> betweenZeroAndOne cv v)" for v
  proof (cases "betweenZeroAndOne cv v")
    case True
    then show ?thesis by (simp add: positiveFloorOrNull_zero)
  next
    case False
    from positiveFloorOrNull_shape [OF False]
    have sh: "nullOrIntAtLeastOne (positiveFloorOrNull cv v) \<or> positiveFloorOrNull cv v = Some PosInf"
      by (auto simp: nullOrIntAtLeastOne_def)
    then have "positiveFloorOrNull cv v \<noteq> Some (Fin 0)"
      by (auto simp: nullOrIntAtLeastOne_def intAtLeastOne_def)
    with sh False show ?thesis by simp
  qed
  have a: "intAtLeastOne (perKeyword st) \<or> perKeyword st = PosInf"
    using perKeyword_shape [of cv raw] by (auto simp: st_def)
  have l: "lastUploadMaxAgeDays st = positiveFloorOrNull cv (getProp raw ''lastUploadMaxAgeDays'')"
    by (simp add: st_def normalizeDiscoverySettings_def Let_def)
  have e: "enrichLimit st = positiveFloorOrNull cv (getProp raw ''enrichLimit'')"
    by (simp add: st_def normalizeDiscoverySettings_def Let_def)
  note b = lim [of "getProp raw ''lastUploadMaxAgeDays''", folded l]
  note c = lim [of "getProp raw ''enrichLimit''", folded e]
  have d: "autoEnrichMode st = ''full'' \<or> autoEnrichMode st = ''email_only''"
    by (simp add: st_def normalizeDiscoverySettings_def Let_def)
  have f: "autoEnrichEnabled st = toBoolean (getProp raw ''autoEnrichEnabled'')"
    by (simp add: st_def normalizeDiscoverySettings_def Let_def)
  have g: "runUntilStopped st = toBoolean (getProp raw ''runUntilStopped'')"
    by (simp add: st_def normalizeDiscoverySettings_def Let_def)
  have h: "keywordList st = parseDiscoveryKeywords (keywordsText st)"
    by (simp add: st_def normalizeDiscoverySettings_def Let_def)
  from a b c d f g h show ?thesis by blast
qed

text \<open>
  C9. The claim asks for \<open>lastUploadMaxAgeDays\<close> and \<open>enrichLimit\<close> to be
  \<^verbatim>\<open>null\<close> or an integer \<open>\<ge> 1\<close>, and for \<open>perKeyword\<close> to be an integer \<open>\<ge> 1\<close>. The
  code clamps \<open>perKeyword\<close> with \<^verbatim>\<open>Math.max(1, Math.floor(..))\<close> but only floors the two
  limits: the raw object \<^verbatim>\<open>{enrichLimit: 0.5}\<close> comes back with the limit 0, which is
  neither \<^verbatim>\<open>null\<close> nor \<open>\<ge> 1\<close>, also when it is read from the stored settings,
  where a raw \<open>perKeyword\<close> of 0.5 comes back as 1. And
  no guard tests for finiteness: a raw \<open>perKeyword\<close> of \<^verbatim>\<open>Infinity\<close> comes back as
  \<^verbatim>\<open>Infinity\<close>, which is no integer.
\<close>

theorem normalizeDiscoverySettings_limit_not_clamped:
  "enrichLimit (normalizeDiscoverySettings noConversions [(''enrichLimit'', JNum (Fin (1/2)))])
     = Some (Fin 0)
   \<and> enrichLimit (loadDiscoverySettings noConversions
        (Parsed (JObj [(''enrichLimit'', JNum (Fin (1/2)))]))) = Some (Fin 0)
   \<and> nullOrIntAtLeastOne (Some (Fin 0)) = False
   \<and> settingsShape (normalizeDiscoverySettings noConversions [(''enrichLimit'', JNum (Fin (1/2)))])
     = False
   \<and> perKeyword (normalizeDiscoverySettings noConversions [(''perKeyword'', JNum (Fin (1/2)))])
     = Fin 1
   \<and> perKeyword (normalizeDiscoverySettings noConversions [(''perKeyword'', JNum PosInf)]) = PosInf
   \<and> settingsShape (normalizeDiscoverySettings noConversions [(''perKeyword'', JNum PosInf)])
     = False"
proof -
  have a: "enrichLimit (normalizeDiscoverySettings noConversions [(''enrichLimit'', JNum (Fin (1/2)))])
     = Some (Fin 0)"
    by (simp add: normalizeDiscoverySettings_def getProp_def Let_def floor_eq_iff)
  have b: "nullOrIntAtLeastOne (Some (Fin 0)) = False"
    by (simp add: nullOrIntAtLeastOne_def intAtLeastOne_def)
  have c: "settingsShape (normalizeDiscoverySettings noConversions [(''enrichLimit'', JNum (Fin (1/2)))])
     = False"
    using a b by (simp add: settingsShape_def)
  have d: "perKeyword (normalizeDiscoverySettings noConversions [(''perKeyword'', JNum (Fin (1/2)))])
     = Fin 1"
    by (simp add: normalizeDiscoverySettings_def getProp_def Let_def isNaN_def floor_eq_iff)
  have e: "perKeyword (normalizeDiscoverySettings noConversions [(''perKeyword'', JNum PosInf)]) = PosInf"
    by (simp add: normalizeDiscoverySettings_def getProp_def isNaN_def Let_def)
  have f: "settingsShape (normalizeDiscoverySettings noConversions [(''perKeyword'', JNum PosInf)])
     = False"
    using e by (simp add: settingsShape_def intAtLeastOne_def)
  have g: "enrichLimit (loadDiscoverySettings noConversions
        (Parsed (JObj [(''enrichLimit'', JNum (Fin (1/2)))]))) = Some (Fin 0)"
    by (simp add: loadDiscoverySettings_def normalizeDiscoverySettings_def getProp_def Let_def
        settingsObject_def floor_eq_iff)
  from a g b c d e f show ?thesis by (intro conjI)
qed

subsection \<open>Saving and reloading\<close>

lemma numOrNull_defined: "numOrNull x \<noteq> JUndefined"
  by (simp add: numOrNull_def split: option.splits)

lemma reloadedObject_props:
  "getProp (reloadedObject st) ''keywordsText'' = JStr (keywordsText st)"
  "getProp (reloadedObject st) ''perKeyword'' = jsonCopy (JNum (perKeyword st))"
  "getProp (reloadedObject st) ''lastUploadMaxAgeDays'' = jsonCopy (numOrNull (lastUploadMaxAgeDays st))"
  "getProp (reloadedObject st) ''denyLanguagesText'' = JStr (denyLanguagesText st)"
  "getProp (reloadedObject st) ''enrichLimit'' = jsonCopy (numOrNull (enrichLimit st))"
  "getProp (reloadedObject st) ''autoEnrichEnabled'' = JBool (autoEnrichEnabled st)"
  "getProp (reloadedObject st) ''autoEnrichMode'' = JStr (autoEnrichMode st)"
  "getProp (reloadedObject st) ''runUntilStopped'' = JBool (runUntilStopped st)"
  by (simp_all add: reloadedObject_def getProp_def settingsObject_def numOrNull_defined)

lemma load_save:
  "loadDiscoverySettings cv (saveDiscoverySettings st) = normalizeDiscoverySettings cv (reloadedObject st)"
  by (simp add: loadDiscoverySettings_def saveDiscoverySettings_def reloadedObject_def Let_def)

lemma positiveFloorOrNull_cases:
  "positiveFloorOrNull cv v = None \<or> positiveFloorOrNull cv v = Some PosInf
   \<or> (\<exists>k\<ge>0. positiveFloorOrNull cv v = Some (Fin (of_int k)))"
proof -
  have fl: "floor_num n = PosInf \<or> (\<exists>k\<ge>0. floor_num n = Fin (of_int k))" if "gt_zero n" for n
    using that by (cases n) auto
  show ?thesis
  proof (cases v)
    case (JNum n)
    then show ?thesis using fl [of n] by auto
  next
    case (JStr s)
    then show ?thesis using fl [of "strToNum cv s"] by (auto simp: Let_def)
  qed simp_all
qed

lemma reload_limit:
  assumes "l = None \<or> l = Some PosInf \<or> (\<exists>k\<ge>0. l = Some (Fin (of_int k)))"
  shows "positiveFloorOrNull cv (jsonCopy (numOrNull l))
         = (if l = Some PosInf \<or> l = Some (Fin 0) then None else l)"
proof -
  from assms consider "l = None" | "l = Some PosInf" | k where "0 \<le> k" "l = Some (Fin (of_int k))"
    by blast
  then show ?thesis
  proof cases
    case 1
    then show ?thesis by (simp add: numOrNull_def)
  next
    case 2
    then show ?thesis by (simp add: numOrNull_def)
  next
    case 3
    show ?thesis
    proof (cases "k = 0")
      case True
      with 3 show ?thesis by (simp add: numOrNull_def)
    next
      case False
      with 3 have "0 < k" by simp
      then show ?thesis using 3 by (simp add: numOrNull_def)
    qed
  qed
qed

lemma reload_perKeyword:
  assumes "p = PosInf \<or> intAtLeastOne p"
  shows "(let x = toNumber cv (jsonCopy (JNum p))
          in if isNaN x \<or> le_zero x then Fin 5 else max_num (Fin 1) (floor_num x))
         = (if p = PosInf then Fin 5 else p)"
  using assms by (cases p) (auto simp: intAtLeastOne_def isNaN_def max_def)

text \<open>
  What saving and reloading does to settings that \<open>normalizeDiscoverySettings\<close> has
  produced: texts, lists, mode and flags come back as they were; \<open>perKeyword\<close> comes back
  unless it is \<^verbatim>\<open>Infinity\<close>, which reloads as the default 5; and a limit comes back
  unless it is \<^verbatim>\<open>Infinity\<close> or 0, which reload as \<^verbatim>\<open>null\<close>. So the reloaded settings
  are the saved ones exactly when none of the numeric fields is one of these values.
\<close>

lemma settings_reload:
  fixes cv :: conversions and raw :: jsobj
  defines "st \<equiv> normalizeDiscoverySettings cv raw"
  defines "st' \<equiv> loadDiscoverySettings cv (saveDiscoverySettings st)"
  shows "keywordsText st' = keywordsText st
       \<and> keywordList st' = keywordList st
       \<and> denyLanguagesText st' = denyLanguagesText st
       \<and> denyLanguages st' = denyLanguages st
       \<and> autoEnrichEnabled st' = autoEnrichEnabled st
       \<and> autoEnrichMode st' = autoEnrichMode st
       \<and> runUntilStopped st' = runUntilStopped st
       \<and> perKeyword st' = (if perKeyword st = PosInf then Fin 5 else perKeyword st)
       \<and> lastUploadMaxAgeDays st' =
            (if lastUploadMaxAgeDays st = Some PosInf \<or> lastUploadMaxAgeDays st = Some (Fin 0)
             then None else lastUploadMaxAgeDays st)
       \<and> enrichLimit st' =
            (if enrichLimit st = Some PosInf \<or> enrichLimit st = Some (Fin 0)
             then None else enrichLimit st)
       \<and> (st' = st \<longleftrightarrow>
            perKeyword st \<noteq> PosInf
            \<and> lastUploadMaxAgeDays st \<noteq> Some (Fin 0) \<and> lastUploadMaxAgeDays st \<noteq> Some PosInf
            \<and> enrichLimit st \<noteq> Some (Fin 0) \<and> enrichLimit st \<noteq> Some PosInf)"
proof -
  have st': "st' = normalizeDiscoverySettings cv (reloadedObject st)"
    by (simp add: st'_def load_save)
  note n = normalizeDiscoverySettings_def [of cv "reloadedObject st"] reloadedObject_props Let_def
  have c1: "keywordsText st' = keywordsText st" by (simp add: st' n)
  have kl: "keywordList st = parseDiscoveryKeywords (keywordsText st)"
    by (simp add: st_def normalizeDiscoverySettings_def Let_def)
  have c2: "keywordList st' = keywordList st" by (simp add: st' n kl)
  have c3: "denyLanguagesText st' = denyLanguagesText st" by (simp add: st' n)
  have dl: "denyLanguages st = parseDiscoveryDenyLanguages (denyLanguagesText st)"
    by (simp add: st_def normalizeDiscoverySettings_def Let_def)
  have c4: "denyLanguages st' = denyLanguages st" by (simp add: st' n dl)
  have c5: "autoEnrichEnabled st' = autoEnrichEnabled st" by (simp add: st' n)
  have md: "autoEnrichMode st = ''full'' \<or> autoEnrichMode st = ''email_only''"
    by (simp add: st_def normalizeDiscoverySettings_def Let_def)
  have c6: "autoEnrichMode st' = autoEnrichMode st" using md by (auto simp: st' n)
  have c7: "runUntilStopped st' = runUntilStopped st" by (simp add: st' n)
  have pk: "perKeyword st = PosInf \<or> intAtLeastOne (perKeyword st)"
    unfolding st_def by (rule perKeyword_shape)
  have "perKeyword st' =
      (let x = toNumber cv (jsonCopy (JNum (perKeyword st)))
       in if isNaN x \<or> le_zero x then Fin 5 else max_num (Fin 1) (floor_num x))"
    by (simp add: st' n defaultDiscoverySettingsState_def del: jsonCopy.simps)
  also have "\<dots> = (if perKeyword st = PosInf then Fin 5 else perKeyword st)"
    by (rule reload_perKeyword [OF pk])
  finally have c8: "perKeyword st' = (if perKeyword st = PosInf then Fin 5 else perKeyword st)" .
  have l: "lastUploadMaxAgeDays st = positiveFloorOrNull cv (getProp raw ''lastUploadMaxAgeDays'')"
    by (simp add: st_def normalizeDiscoverySettings_def Let_def)
  have "lastUploadMaxAgeDays st' = positiveFloorOrNull cv (jsonCopy (numOrNull (lastUploadMaxAgeDays st)))"
    by (simp add: st' n del: jsonCopy.simps)
  also have "\<dots> = (if lastUploadMaxAgeDays st = Some PosInf \<or> lastUploadMaxAgeDays st = Some (Fin 0)
             then None else lastUploadMaxAgeDays st)"
    using positiveFloorOrNull_cases [of cv "getProp raw ''lastUploadMaxAgeDays''"]
    unfolding l [symmetric] by (rule reload_limit)
  finally have c9: "lastUploadMaxAgeDays st' =
            (if lastUploadMaxAgeDays st = Some PosInf \<or> lastUploadMaxAgeDays st = Some (Fin 0)
             then None else lastUploadMaxAgeDays st)" .
  have e: "enrichLimit st = positiveFloorOrNull cv (getProp raw ''enrichLimit'')"
    by (simp add: st_def normalizeDiscoverySettings_def Let_def)
  have "enrichLimit st' = positiveFloorOrNull cv (jsonCopy (numOrNull (enrichLimit st)))"
    by (simp add: st' n del: jsonCopy.simps)
  also have "\<dots> = (if enrichLimit st = Some PosInf \<or> enrichLimit st = Some (Fin 0)
             then None else enrichLimit st)"
    using positiveFloorOrNull_cases [of cv "getProp raw ''enrichLimit''"]
    unfolding e [symmetric] by (rule reload_limit)
  finally have c10: "enrichLimit st' =
            (if enrichLimit st = Some PosInf \<or> enrichLimit st = Some (Fin 0)
             then None else enrichLimit st)" .
  have c11: "st' = st"
    if "perKeyword st \<noteq> PosInf"
      "lastUploadMaxAgeDays st \<noteq> Some (Fin 0)" "lastUploadMaxAgeDays st \<noteq> Some PosInf"
      "enrichLimit st \<noteq> Some (Fin 0)" "enrichLimit st \<noteq> Some PosInf"
    using that c1 c2 c3 c4 c5 c6 c7 c8 c9 c10 by (intro discovery_settings.equality) simp_all
  have c12: "perKeyword st \<noteq> PosInf
            \<and> lastUploadMaxAgeDays st \<noteq> Some (Fin 0) \<and> lastUploadMaxAgeDays st \<noteq> Some PosInf
            \<and> enrichLimit st \<noteq> Some (Fin 0) \<and> enrichLimit st \<noteq> Some PosInf"
    if eq: "st' = st"
  proof -
    have "perKeyword st \<noteq> PosInf" using c8 eq by auto
    moreover have "lastUploadMaxAgeDays st \<noteq> Some (Fin 0) \<and> lastUploadMaxAgeDays st \<noteq> Some PosInf"
      using c9 eq by auto
    moreover have "enrichLimit st \<noteq> Some (Fin 0) \<and> enrichLimit st \<noteq> Some PosInf"
      using c10 eq by auto
    ultimately show ?thesis by blast
  qed
  from c1 c2 c3 c4 c5 c6 c7 c8 c9 c10 c11 c12 show ?thesis by blast
qed

text \<open>
  C8. For every settings value that \<open>normalizeDiscoverySettings\<close> produces, saving and
  reloading gives back the keyword list and the two flags (and the texts, the deny list
  and the mode), and gives back each numeric field when its stored value is valid, the
  default of the field (5 for \<open>perKeyword\<close>, \<^verbatim>\<open>null\<close> for the two limits) when the
  stored value is absent or invalid; with no stored item, or one that does not parse,
  the reload gives the defaults. For settings in which \<open>perKeyword\<close> is an integer
  \<open>\<ge> 1\<close> and each limit is \<^verbatim>\<open>null\<close> or an integer \<open>\<ge> 1\<close>, the reloaded settings
  are the saved ones, field for field.
\<close>

theorem settings_roundtrip:
  fixes cv :: conversions and raw :: jsobj
  defines "st \<equiv> normalizeDiscoverySettings cv raw"
  defines "st' \<equiv> loadDiscoverySettings cv (saveDiscoverySettings st)"
  shows "keywordList st' = keywordList st
       \<and> autoEnrichEnabled st' = autoEnrichEnabled st
       \<and> runUntilStopped st' = runUntilStopped st
       \<and> keywordsText st' = keywordsText st
       \<and> denyLanguagesText st' = denyLanguagesText st
       \<and> denyLanguages st' = denyLanguages st
       \<and> autoEnrichMode st' = autoEnrichMode st
       \<and> perKeyword st' =
            (if storedValid (storedNumber (Some (perKeyword st))) then perKeyword st
             else perKeyword defaultDiscoverySettingsState)
       \<and> lastUploadMaxAgeDays st' =
            (if storedValid (storedNumber (lastUploadMaxAgeDays st)) then lastUploadMaxAgeDays st
             else lastUploadMaxAgeDays defaultDiscoverySettingsState)
       \<and> enrichLimit st' =
            (if storedValid (storedNumber (enrichLimit st)) then enrichLimit st
             else enrichLimit defaultDiscoverySettingsState)
       \<and> (settingsShape st \<longrightarrow> sameSettings st' st \<and> st' = st)
       \<and> loadDiscoverySettings cv NoItem = defaultDiscoverySettingsState
       \<and> loadDiscoverySettings cv Unparsable = defaultDiscoverySettingsState"
proof -
  note r = settings_reload [of cv raw, folded st_def, folded st'_def]
  have pk: "perKeyword st = PosInf \<or> intAtLeastOne (perKeyword st)"
    unfolding st_def by (rule perKeyword_shape)
  have vp: "storedValid (storedNumber (Some (perKeyword st))) = (perKeyword st \<noteq> PosInf)"
    using pk by (cases "perKeyword st")
      (auto simp: storedValid_def storedNumber_def numOrNull_def intAtLeastOne_def)
  have lim: "storedValid (storedNumber l) = (l \<noteq> None \<and> l \<noteq> Some PosInf \<and> l \<noteq> Some (Fin 0))"
    if "l = None \<or> l = Some PosInf \<or> (\<exists>k\<ge>0. l = Some (Fin (of_int k)))" for l
    using that by (auto simp: storedValid_def storedNumber_def numOrNull_def)
  have l: "lastUploadMaxAgeDays st = positiveFloorOrNull cv (getProp raw ''lastUploadMaxAgeDays'')"
    by (simp add: st_def normalizeDiscoverySettings_def Let_def)
  have e: "enrichLimit st = positiveFloorOrNull cv (getProp raw ''enrichLimit'')"
    by (simp add: st_def normalizeDiscoverySettings_def Let_def)
  have vl: "storedValid (storedNumber (lastUploadMaxAgeDays st))
      = (lastUploadMaxAgeDays st \<noteq> None \<and> lastUploadMaxAgeDays st \<noteq> Some PosInf
         \<and> lastUploadMaxAgeDays st \<noteq> Some (Fin 0))"
    using positiveFloorOrNull_cases [of cv "getProp raw ''lastUploadMaxAgeDays''"]
    unfolding l [symmetric] by (rule lim)
  have ve: "storedValid (storedNumber (enrichLimit st))
      = (enrichLimit st \<noteq> None \<and> enrichLimit st \<noteq> Some PosInf \<and> enrichLimit st \<noteq> Some (Fin 0))"
    using positiveFloorOrNull_cases [of cv "getProp raw ''enrichLimit''"]
    unfolding e [symmetric] by (rule lim)
  have d: "perKeyword defaultDiscoverySettingsState = Fin 5"
    "lastUploadMaxAgeDays defaultDiscoverySettingsState = None"
    "enrichLimit defaultDiscoverySettingsState = None"
    by (simp_all add: defaultDiscoverySettingsState_def)
  have c8: "perKeyword st' =
            (if storedValid (storedNumber (Some (perKeyword st))) then perKeyword st
             else perKeyword defaultDiscoverySettingsState)"
    using r by (simp add: vp d)
  have c9: "lastUploadMaxAgeDays st' =
            (if storedValid (storedNumber (lastUploadMaxAgeDays st)) then lastUploadMaxAgeDays st
             else lastUploadMaxAgeDays defaultDiscoverySettingsState)"
    using r by (auto simp: vl d)
  have c10: "enrichLimit st' =
            (if storedValid (storedNumber (enrichLimit st)) then enrichLimit st
             else enrichLimit defaultDiscoverySettingsState)"
    using r by (auto simp: ve d)
  have sh: "sameSettings st' st \<and> st' = st" if "settingsShape st"
  proof -
    have "perKeyword st \<noteq> PosInf"
      "lastUploadMaxAgeDays st \<noteq> Some (Fin 0)" "lastUploadMaxAgeDays st \<noteq> Some PosInf"
      "enrichLimit st \<noteq> Some (Fin 0)" "enrichLimit st \<noteq> Some PosInf"
      using that by (auto simp: settingsShape_def nullOrIntAtLeastOne_def intAtLeastOne_def)
    then have "st' = st" using r by blast
    then show ?thesis by (simp add: sameSettings_def)
  qed
  have n: "loadDiscoverySettings cv NoItem = defaultDiscoverySettingsState"
    "loadDiscoverySettings cv Unparsable = defaultDiscoverySettingsState"
    by (simp_all add: loadDiscoverySettings_def)
  from r c8 c9 c10 sh n show ?thesis by blast
qed

theorem settings_roundtrip_witness:
  "settingsShape (normalizeDiscoverySettings noConversions
      [(''lastUploadMaxAgeDays'', JNum (Fin (7/2))), (''enrichLimit'', JNum (Fin 40))])
   \<and> lastUploadMaxAgeDays (normalizeDiscoverySettings noConversions
      [(''lastUploadMaxAgeDays'', JNum (Fin (7/2))), (''enrichLimit'', JNum (Fin 40))]) = Some (Fin 3)
   \<and> enrichLimit (normalizeDiscoverySettings noConversions
      [(''lastUploadMaxAgeDays'', JNum (Fin (7/2))), (''enrichLimit'', JNum (Fin 40))]) = Some (Fin 40)
   \<and> perKeyword (normalizeDiscoverySettings noConversions
      [(''lastUploadMaxAgeDays'', JNum (Fin (7/2))), (''enrichLimit'', JNum (Fin 40))]) = Fin 5
   \<and> loadDiscoverySettings noConversions (saveDiscoverySettings (normalizeDiscoverySettings noConversions
      [(''lastUploadMaxAgeDays'', JNum (Fin (7/2))), (''enrichLimit'', JNum (Fin 40))]))
     = normalizeDiscoverySettings noConversions
      [(''lastUploadMaxAgeDays'', JNum (Fin (7/2))), (''enrichLimit'', JNum (Fin 40))]"
proof -
  let ?raw = "[(''lastUploadMaxAgeDays'', JNum (Fin (7/2))), (''enrichLimit'', JNum (Fin 40))]"
  let ?st = "normalizeDiscoverySettings noConversions ?raw"
  have v1: "lastUploadMaxAgeDays ?st = Some (Fin 3)"
    by (simp add: normalizeDiscoverySettings_def getProp_def Let_def floor_eq_iff)
  have v2: "enrichLimit ?st = Some (Fin 40)"
    by (simp add: normalizeDiscoverySettings_def getProp_def Let_def)
  have v3: "perKeyword ?st = Fin 5"
    by (simp add: normalizeDiscoverySettings_def getProp_def Let_def isNaN_def
        defaultDiscoverySettingsState_def)
  have i: "intAtLeastOne (Fin 3)" "intAtLeastOne (Fin 40)" "intAtLeastOne (Fin 5)"
    by (simp_all add: intAtLeastOne_def)
  have sh: "settingsShape ?st"
    using normalizeDiscoverySettings_fields [of noConversions ?raw] i
    by (simp add: settingsShape_def v1 v2 v3 nullOrIntAtLeastOne_def)
  from settings_roundtrip [of noConversions ?raw] sh v1 v2 v3 show ?thesis
    by simp
qed

section \<open>Properties of the discovery loop\<close>

subsection \<open>Starting a loop that is already running\<close>

text \<open>
  C4. In every state in which the loop is running (\<open>discoveryLoopActive\<close>), a call of
  \<open>startDiscoveryLoop\<close> returns at once and leaves the whole state as it is (the run
  and found counters, the stop flag, everything else) except that the notice
  \<^verbatim>\<open>Discovery loop is already running.\<close> is shown: no request is sent, no second loop
  begins.
\<close>

theorem startDiscoveryLoop_already_running:
  assumes "discoveryLoopActive s"
  shows "startDiscoveryLoop initialInputs sched s
         = Exited (s\<lparr>effects := effects s @ [StatusBar LoopAlreadyRunning Info]\<rparr>)"
  using assms by (simp add: startDiscoveryLoop_def updateStatusBar_def emit_def)

theorem startDiscoveryLoop_already_running_witness:
  "discoveryLoopActive (initialDashboard\<lparr>discoveryLoopActive := True, discoveryLoopStopping := True,
       discoveryLoopStats := \<lparr>runs = 2, found = 4\<rparr>\<rparr>)
   \<and> startDiscoveryLoop None \<lparr>ls_clicks_start = [], ls_iterations = [], ls_notified = True\<rparr>
       (initialDashboard\<lparr>discoveryLoopActive := True, discoveryLoopStopping := True,
          discoveryLoopStats := \<lparr>runs = 2, found = 4\<rparr>\<rparr>)
     = Exited (initialDashboard\<lparr>discoveryLoopActive := True, discoveryLoopStopping := True,
          discoveryLoopStats := \<lparr>runs = 2, found = 4\<rparr>,
          effects := [StatusBar LoopAlreadyRunning Info]\<rparr>)"
proof -
  let ?s = "initialDashboard\<lparr>discoveryLoopActive := True, discoveryLoopStopping := True,
       discoveryLoopStats := \<lparr>runs = 2, found = 4\<rparr>\<rparr>"
  have a: "discoveryLoopActive ?s" by simp
  from startDiscoveryLoop_already_running [OF a] a show ?thesis
    by (simp add: initialDashboard_def)
qed

subsection \<open>What the other handlers leave alone\<close>

lemma loopView_emit:
  "(case e of CallDiscover i \<Rightarrow> False | _ \<Rightarrow> True) \<Longrightarrow> loopView (emit e s) = loopView s"
  by (cases e) (simp_all add: loopView_def emit_def discoverCalls_def)

lemma loopView_updateStatusBar [simp]: "loopView (updateStatusBar m t s) = loopView s"
  by (simp add: updateStatusBar_def loopView_emit)

lemma loopView_closeDropdown [simp]: "loopView (closeDropdown m s) = loopView s"
  by (simp add: closeDropdown_def loopView_def discoverCalls_def)

lemma loopView_maybeRefresh [simp]: "loopView (maybeRefreshAfterLoop stats now s) = loopView s"
proof -
  have f: "loopView (maybeRefreshAfterLoop_finish stats s') = loopView s'" for s'
    by (simp add: maybeRefreshAfterLoop_finish_def Let_def loopView_emit)
  have b: "loopView (snd (maybeRefreshAfterLoop_begin stats now s)) = loopView s"
    by (simp add: maybeRefreshAfterLoop_begin_def Let_def loopView_def discoverCalls_def)
  show ?thesis
    using b by (cases "maybeRefreshAfterLoop_begin stats now s")
      (auto simp: maybeRefreshAfterLoop_def f split: bool.splits)
qed

lemma loopView_loadStats [simp]: "loopView (loadStats reply now s) = loopView s"
proof -
  have a: "loopView (loadStats_begin s) = loopView s"
    by (simp add: loadStats_begin_def loopView_emit) (simp add: loopView_def discoverCalls_def)
  have u: "loopView (s'\<lparr>statsPromise := x\<rparr>) = loopView s'" for s' x
    by (simp add: loopView_def discoverCalls_def)
  have c: "loopView (s'\<lparr>currentStats := x\<rparr>) = loopView s'" for s' x
    by (simp add: loopView_def discoverCalls_def)
  have "loopView (loadStats_settle reply now s') = loopView s'" for s'
    by (cases reply) (simp_all add: loadStats_settle_def u c)
  then show ?thesis by (simp add: loadStats_def a)
qed

lemma loopView_openEventSource [simp]: "loopView (openEventSource jobId s) = loopView s"
  by (simp add: openEventSource_def closeEventSource_def Let_def loopView_emit)
     (simp add: loopView_def discoverCalls_def emit_def)

lemma loopView_handleEnrich [simp]:
  "loopView (handleEnrich mode limitOverride autoTriggered reply s) = loopView s"
proof -
  have u: "loopView (s'\<lparr>enrichmentBusy := a, autoEnrichQueuedNotified := b, enrichButtonsDisabled := c\<rparr>)
           = loopView s'" for s' a b c
    by (simp add: loopView_def discoverCalls_def)
  have v: "loopView (s'\<lparr>enrichmentBusy := a, enrichButtonsDisabled := c\<rparr>) = loopView s'" for s' a c
    by (simp add: loopView_def discoverCalls_def)
  have w: "loopView (s'\<lparr>pendingAutoEnrich := a, autoEnrichQueuedNotified := c\<rparr>) = loopView s'" for s' a c
    by (simp add: loopView_def discoverCalls_def)
  show ?thesis
    by (simp add: handleEnrich_def Let_def loopView_emit u v w split: enrich_reply.splits option.splits)
qed

lemma loopView_triggerAutoEnrich [simp]:
  "loopView (triggerAutoEnrich n reply s) = loopView s"
proof -
  have u: "loopView (s'\<lparr>pendingAutoEnrich := a\<rparr>) = loopView s'" for s' a
    by (simp add: loopView_def discoverCalls_def)
  have v: "loopView (s'\<lparr>autoEnrichQueuedNotified := a\<rparr>) = loopView s'" for s' a
    by (simp add: loopView_def discoverCalls_def)
  show ?thesis
    by (simp add: triggerAutoEnrich_def Let_def u v)
qed

lemma resume_result:
  "fst (performDiscoveryRun_resume label d replies s) =
     (case rr_discover replies of DiscoverFailed msg \<Rightarrow> None | Discovered f b \<Rightarrow> Some (f, b))"
  by (simp add: performDiscoveryRun_resume_def Let_def split: discover_reply.splits)

lemma loopView_resume [simp]:
  "loopView (snd (performDiscoveryRun_resume label d replies s)) = loopView s"
  by (simp add: performDiscoveryRun_resume_def Let_def loopView_emit split: discover_reply.splits)

lemma loopView_begin:
  "loopView (performDiscoveryRun_begin inputs label s) =
     (discoveryLoopActive s, discoveryLoopStopping s, discoveryLoopStats s, Suc (discoverCalls s))"
  by (simp add: performDiscoveryRun_begin_def updateStatusBar_def emit_def loopView_def
      discoverCalls_def)

lemma loopView_stop:
  "loopView (stopDiscoveryLoop s) =
     (discoveryLoopActive s, discoveryLoopStopping s \<or> discoveryLoopActive s,
      discoveryLoopStats s, discoverCalls s)"
  by (auto simp: stopDiscoveryLoop_def updateStatusBar_def emit_def loopView_def discoverCalls_def)

lemma loopView_openDiscoverSettings [simp]: "loopView (openDiscoverSettings s) = loopView s"
proof -
  have c: "loopView (closeAllDropdowns s) = loopView s"
    by (simp add: closeAllDropdowns_def split: option.splits)
  have u: "loopView (s'\<lparr>settingsModalOpen := a\<rparr>) = loopView s'" for s' a
    by (simp add: loopView_def discoverCalls_def)
  show ?thesis by (simp add: openDiscoverSettings_def Let_def c u)
qed

lemma loopView_applyClick:
  "loopView (applyClick c s) =
     (discoveryLoopActive s,
      discoveryLoopStopping s \<or> (discoveryLoopActive s \<and> c = ClickStop),
      discoveryLoopStats s, discoverCalls s)"
proof (cases c)
  case ClickStop
  then show ?thesis by (auto simp: loopView_stop)
next
  case ClickDiscover
  then show ?thesis by (simp add: loopView_openDiscoverSettings) (simp add: loopView_def)
qed

lemma loopView_applyClicks:
  "loopView (applyClicks cs s) =
     (discoveryLoopActive s,
      discoveryLoopStopping s \<or> (discoveryLoopActive s \<and> ClickStop \<in> set cs),
      discoveryLoopStats s, discoverCalls s)"
proof (induction cs arbitrary: s)
  case Nil
  then show ?case by (simp add: applyClicks_def loopView_def)
next
  case (Cons c cs)
  let ?s = "applyClick c s"
  have lv: "loopView ?s =
     (discoveryLoopActive s, discoveryLoopStopping s \<or> (discoveryLoopActive s \<and> c = ClickStop),
      discoveryLoopStats s, discoverCalls s)"
    by (rule loopView_applyClick)
  from lv have a: "discoveryLoopActive ?s = discoveryLoopActive s"
    and b: "discoveryLoopStopping ?s = (discoveryLoopStopping s \<or> (discoveryLoopActive s \<and> c = ClickStop))"
    and c: "discoveryLoopStats ?s = discoveryLoopStats s"
    and d: "discoverCalls ?s = discoverCalls s"
    by (simp_all add: loopView_def)
  have "loopView (applyClicks (c # cs) s) = loopView (applyClicks cs ?s)"
    by (simp add: applyClicks_def)
  also have "\<dots> = (discoveryLoopActive ?s,
      discoveryLoopStopping ?s \<or> (discoveryLoopActive ?s \<and> ClickStop \<in> set cs),
      discoveryLoopStats ?s, discoverCalls ?s)"
    by (rule Cons.IH)
  also have "\<dots> = (discoveryLoopActive s,
      discoveryLoopStopping s \<or> (discoveryLoopActive s \<and> ClickStop \<in> set (c # cs)),
      discoveryLoopStats s, discoverCalls s)"
    unfolding a b c d by auto
  finally show ?case .
qed

lemma loopViewD:
  "loopView s = (a, b, c, d) \<Longrightarrow>
   discoveryLoopActive s = a \<and> discoveryLoopStopping s = b
   \<and> discoveryLoopStats s = c \<and> discoverCalls s = d"
  by (simp add: loopView_def)

lemma loopView_stats_update:
  "loopView (s\<lparr>discoveryLoopStats := x\<rparr>) =
     (discoveryLoopActive s, discoveryLoopStopping s, x, discoverCalls s)"
  by (simp add: loopView_def discoverCalls_def)

lemma loopBody_failed:
  assumes "discoveryLoopActive s" "\<not> discoveryLoopStopping s"
    and "rr_discover (it_replies it) = DiscoverFailed msg"
  shows "\<exists>s'. loopBody inputs it s = Inl (True, s')
          \<and> discoveryLoopActive s'
          \<and> discoveryLoopStats s' = discoveryLoopStats s
          \<and> discoverCalls s' = Suc (discoverCalls s)"
proof -
  let ?n = "Some (runs (discoveryLoopStats s) + 1)"
  let ?s1 = "performDiscoveryRun_begin inputs ?n s"
  let ?s2 = "applyClicks (it_clicks_run it) ?s1"
  let ?r = "performDiscoveryRun_resume ?n True (it_replies it) ?s2"
  have res: "fst ?r = None" using assms(3) by (simp add: resume_result)
  have v: "loopView (snd ?r) = loopView ?s2" by simp
  have v2: "loopView ?s2 = (True, ClickStop \<in> set (it_clicks_run it), discoveryLoopStats s,
      Suc (discoverCalls s))"
    using assms(1,2) loopView_begin [of inputs ?n s]
    by (simp add: loopView_applyClicks) (simp add: loopView_def)
  have "loopBody inputs it s = Inl (True, snd ?r)"
    using res by (cases ?r) (simp add: loopBody_def Let_def)
  then show ?thesis using v v2 by (simp add: loopView_def)
qed

lemma loopBody_found:
  assumes "discoveryLoopActive s" "\<not> discoveryLoopStopping s"
    and "rr_discover (it_replies it) = Discovered f b"
  shows "\<exists>s'. loopBody inputs it s = (if stopClicked it then Inl (False, s') else Inr s')
          \<and> discoveryLoopActive s'
          \<and> discoveryLoopStopping s' = stopClicked it
          \<and> discoveryLoopStats s' =
              \<lparr> runs = runs (discoveryLoopStats s) + 1, found = found (discoveryLoopStats s) + f \<rparr>
          \<and> discoverCalls s' = Suc (discoverCalls s)"
proof -
  let ?i = "runs (discoveryLoopStats s) + 1"
  let ?st = "\<lparr> runs = runs (discoveryLoopStats s) + 1, found = found (discoveryLoopStats s) + f \<rparr>"
  let ?s1 = "performDiscoveryRun_begin inputs (Some ?i) s"
  let ?s2 = "applyClicks (it_clicks_run it) ?s1"
  let ?r = "performDiscoveryRun_resume (Some ?i) True (it_replies it) ?s2"
  let ?s3 = "snd ?r"
  let ?s4 = "?s3\<lparr>discoveryLoopStats :=
      \<lparr> runs = runs (discoveryLoopStats ?s3) + 1, found = found (discoveryLoopStats ?s3) + f \<rparr>\<rparr>"
  let ?s5 = "emit (CallNotifyProgress (runs (discoveryLoopStats ?s4)) (found (discoveryLoopStats ?s4))) ?s4"
  let ?s6 = "applyClicks (it_clicks_report it) ?s5"
  let ?s7 = "updateStatusBar (RunTotal ?i f b (found (discoveryLoopStats ?s6))) Success ?s6"
  let ?s8 = "applyClicks (it_clicks_delay it) (emit (Delay 2000) ?s7)"
  let ?c1 = "ClickStop \<in> set (it_clicks_run it)"
  let ?c2 = "ClickStop \<in> set (it_clicks_report it)"
  let ?c3 = "ClickStop \<in> set (it_clicks_delay it)"
  have res: "?r = (Some (f, b), ?s3)"
    using assms(3) resume_result [of "Some ?i" True "it_replies it" ?s2]
    by (cases ?r) simp
  have v2: "loopView ?s2 = (True, ?c1, discoveryLoopStats s, Suc (discoverCalls s))"
    using assms(1,2) loopView_begin [of inputs "Some ?i" s]
    by (simp add: loopView_applyClicks) (simp add: loopView_def)
  have v3: "loopView ?s3 = (True, ?c1, discoveryLoopStats s, Suc (discoverCalls s))"
    using v2 by simp
  have v4: "loopView ?s4 = (True, ?c1, ?st, Suc (discoverCalls s))"
    using loopViewD [OF v3] by (simp add: loopView_stats_update)
  have v5: "loopView ?s5 = (True, ?c1, ?st, Suc (discoverCalls s))"
    using v4 by (simp add: loopView_emit)
  have v6: "loopView ?s6 = (True, ?c1 \<or> ?c2, ?st, Suc (discoverCalls s))"
    using loopViewD [OF v5] by (simp add: loopView_applyClicks)
  have v7: "loopView ?s7 = (True, ?c1 \<or> ?c2, ?st, Suc (discoverCalls s))"
    using v6 by simp
  have vd: "loopView (emit (Delay 2000) ?s7) = (True, ?c1 \<or> ?c2, ?st, Suc (discoverCalls s))"
    using v7 by (simp add: loopView_emit)
  have v8: "loopView ?s8 = (True, ?c1 \<or> ?c2 \<or> ?c3, ?st, Suc (discoverCalls s))"
    using loopViewD [OF vd] by (auto simp: loopView_applyClicks)
  have body: "loopBody inputs it s =
      (if discoveryLoopStopping ?s7 then Inl (False, ?s7)
       else if discoveryLoopStopping ?s8 then Inl (False, ?s8) else Inr ?s8)"
    unfolding loopBody_def Let_def by (subst res) simp
  show ?thesis
  proof (cases "?c1 \<or> ?c2")
    case True
    then have st: "discoveryLoopStopping ?s7" using loopViewD [OF v7] by simp
    have "loopBody inputs it s = Inl (False, ?s7)" by (simp only: body st if_True)
    moreover have "stopClicked it" using True by (auto simp: stopClicked_def)
    ultimately show ?thesis using loopViewD [OF v7] True
      by (intro exI [of _ ?s7]) simp
  next
    case False
    then have st: "\<not> discoveryLoopStopping ?s7" using loopViewD [OF v7] by simp
    have sc: "stopClicked it = ?c3" using False by (auto simp: stopClicked_def)
    have st8: "discoveryLoopStopping ?s8 = ?c3" using loopViewD [OF v8] False by simp
    have "loopBody inputs it s = (if ?c3 then Inl (False, ?s8) else Inr ?s8)"
      by (simp only: body st st8 if_False)
    then show ?thesis using loopViewD [OF v8] False sc
      by (intro exI [of _ ?s8]) simp
  qed
qed

lemma discoveryLoop_exit:
  assumes "discoveryLoopActive s" "\<not> discoveryLoopStopping s"
  shows "case loopExit its of
           None \<Rightarrow> (\<exists>s'. discoveryLoop inputs its s = Running s' \<and> discoveryLoopActive s')
         | Some (fs, err) \<Rightarrow>
             (\<exists>s'. discoveryLoop inputs its s = Exited (err, s')
               \<and> discoveryLoopActive s'
               \<and> (\<not> err \<longrightarrow> discoveryLoopStopping s')
               \<and> discoveryLoopStats s' =
                   \<lparr> runs = runs (discoveryLoopStats s) + int (length fs),
                     found = found (discoveryLoopStats s) + sum_list fs \<rparr>
               \<and> discoverCalls s' = discoverCalls s + length fs + (if err then 1 else 0))"
  using assms
proof (induction its arbitrary: s)
  case Nil
  then show ?case by simp
next
  case (Cons it its)
  note act = Cons.prems(1) and nst = Cons.prems(2)
  show ?case
  proof (cases "rr_discover (it_replies it)")
    case (DiscoverFailed msg)
    from loopBody_failed [OF act nst DiscoverFailed, of inputs]
    obtain s' where "loopBody inputs it s = Inl (True, s')" "discoveryLoopActive s'"
      "discoveryLoopStats s' = discoveryLoopStats s" "discoverCalls s' = Suc (discoverCalls s)"
      by blast
    then show ?thesis using nst DiscoverFailed by simp
  next
    case (Discovered f b)
    from loopBody_found [OF act nst Discovered, of inputs]
    obtain s' where body: "loopBody inputs it s = (if stopClicked it then Inl (False, s') else Inr s')"
      and a': "discoveryLoopActive s'" and st': "discoveryLoopStopping s' = stopClicked it"
      and stats': "discoveryLoopStats s' =
          \<lparr> runs = runs (discoveryLoopStats s) + 1, found = found (discoveryLoopStats s) + f \<rparr>"
      and calls': "discoverCalls s' = Suc (discoverCalls s)"
      by blast
    show ?thesis
    proof (cases "stopClicked it")
      case True
      then show ?thesis using nst Discovered body a' st' stats' calls' by simp
    next
      case False
      then have nst': "\<not> discoveryLoopStopping s'" using st' by simp
      have step: "discoveryLoop inputs (it # its) s = discoveryLoop inputs its s'"
        using nst body False by simp
      show ?thesis
      proof (cases "loopExit its")
        case None
        with Cons.IH [OF a' nst', of ] show ?thesis
          using Discovered False step by simp
      next
        case (Some out)
        obtain fs err where out: "out = (fs, err)" by (cases out)
        with Cons.IH [OF a' nst'] Some show ?thesis
          using Discovered False step stats' calls' by auto
      qed
    qed
  qed
qed

subsection \<open>The completion record\<close>

lemma loopExit_quiet_prefix:
  assumes "\<forall>i \<in> set pre. quietRun i"
  shows "loopExit (pre @ its) =
     (case loopExit its of None \<Rightarrow> None | Some (fs, err) \<Rightarrow> Some (map foundOf pre @ fs, err))"
  using assms
proof (induction pre)
  case Nil
  then show ?case by (simp split: option.splits)
next
  case (Cons i pre)
  then have q: "quietRun i" and rest: "\<forall>i \<in> set pre. quietRun i" by simp_all
  from q obtain f b where d: "rr_discover (it_replies i) = Discovered f b" and ns: "\<not> stopClicked i"
    by (auto simp: quietRun_def split: discover_reply.splits)
  have fo: "foundOf i = f" by (simp add: foundOf_def d)
  show ?case using Cons.IH [OF rest] d ns fo by (simp split: option.splits)
qed

lemma loopExit_stop_during_run:
  assumes "\<forall>i \<in> set pre. quietRun i"
    and "ClickStop \<in> set (it_clicks_run it)" and "rr_discover (it_replies it) = Discovered f b"
  shows "loopExit (pre @ it # rest) = Some (map foundOf pre @ [f], False)"
proof -
  have "stopClicked it" using assms(2) by (simp add: stopClicked_def)
  then have "loopExit (it # rest) = Some ([f], False)" using assms(3) by simp
  then show ?thesis by (simp add: loopExit_quiet_prefix [OF assms(1)])
qed

lemma enter_view:
  "loopView (startDiscoveryLoop_enter clicks s) =
     (True, ClickStop \<in> set clicks, \<lparr> runs = 0, found = 0 \<rparr>, discoverCalls s)"
proof -
  let ?s1 = "s\<lparr>discoveryLoopStats := \<lparr> runs = 0, found = 0 \<rparr>,
                 discoveryLoopStopping := False,
                 discoveryLoopCompletionPayload := None,
                 discoveryLoopCompletionSent := False,
                 finalizingDiscoveryLoop := False\<rparr>"
  let ?s4 = "emit CallNotifyStart (updateStatusBar LoopStarted Info (setDiscoveryLoopRunningState True ?s1))"
  have "loopView ?s4 = (True, False, \<lparr> runs = 0, found = 0 \<rparr>, discoverCalls s)"
    by (simp add: loopView_emit) (simp add: loopView_def setDiscoveryLoopRunningState_def discoverCalls_def)
  from loopViewD [OF this] show ?thesis
    by (simp add: startDiscoveryLoop_enter_def Let_def loopView_applyClicks)
qed

lemma loopFinally_store_payload:
  "discoveryLoopCompletionPayload (loopFinally_store err s) =
     Some \<lparr> c_runs = runs (discoveryLoopStats s), c_discovered = found (discoveryLoopStats s),
            c_reason = Some (if err then ''error''
                             else if discoveryLoopStopping s then ''stopped'' else ''completed''),
            c_error = err, c_message = None \<rparr>
   \<and> \<not> discoveryLoopActive (loopFinally_store err s)
   \<and> \<not> discoveryLoopStopping (loopFinally_store err s)
   \<and> discoveryLoopStats (loopFinally_store err s) = discoveryLoopStats s"
  by (simp add: loopFinally_store_def Let_def storeCompletion_def setDiscoveryLoopRunningState_def
      updateStatusBar_def emit_def)

lemma startDiscoveryLoop_unfold:
  assumes "\<not> discoveryLoopActive s"
    and "initialInputs = None \<longrightarrow> keywordList (discoverySettings s) \<noteq> []"
  shows "\<exists>inputs. startDiscoveryLoop initialInputs sched s =
     (case discoveryLoop inputs (ls_iterations sched)
             (startDiscoveryLoop_enter (ls_clicks_start sched) s) of
        Running s'' \<Rightarrow> Running s''
      | Exited (loopError, s'') \<Rightarrow>
          Exited (tryFinalizeDiscoveryLoop (ls_notified sched) (loopFinally_store loopError s'')))"
proof (cases initialInputs)
  case None
  with assms(2) have "\<exists>i. collectDiscoveryInputsFromSettings s = (Some i, s)"
    by (simp add: collectDiscoveryInputsFromSettings_def Let_def)
  then obtain i where "collectDiscoveryInputsFromSettings s = (Some i, s)" ..
  with assms(1) None show ?thesis
    by (intro exI [of _ i]) (simp add: startDiscoveryLoop_def loopFinally_def split: progress.splits prod.splits)
next
  case (Some i)
  with assms(1) show ?thesis
    by (intro exI [of _ i]) (simp add: startDiscoveryLoop_def loopFinally_def split: progress.splits prod.splits)
qed

lemma tryFinalize_failed_payload:
  "discoveryLoopCompletionPayload (tryFinalizeDiscoveryLoop False s) = discoveryLoopCompletionPayload s"
  by (simp add: tryFinalizeDiscoveryLoop_def Let_def emit_def split: option.splits)

text \<open>
  C1. Let \<open>startDiscoveryLoop\<close> be called while no loop is running, with inputs given or
  with keywords in the settings. If within the schedule Stop is pressed or a run fails, the
  method returns, and the record it queues (the state \<open>s'\<close> on which
  \<open>tryFinalizeDiscoveryLoop\<close> is then called) carries \<open>runs\<close> = the number of runs
  completed before the exit, \<open>discovered\<close> = the sum of what these runs found, and the
  reason \<^verbatim>\<open>error\<close> when the exit is a failed run, \<^verbatim>\<open>stopped\<close> otherwise; if neither
  happens the loop is still running when the schedule ends. In particular, when Stop is
  pressed during run \<open>k\<close> (the runs before it succeed undisturbed, run \<open>k\<close> succeeds),
  the outcome is the \<open>k\<close> found-counts and \<^verbatim>\<open>stopped\<close>.
\<close>

theorem startDiscoveryLoop_completion:
  assumes "\<not> discoveryLoopActive s"
    and "initialInputs = None \<longrightarrow> keywordList (discoverySettings s) \<noteq> []"
  shows "(case loopOutcome sched of
            None \<Rightarrow>
              (\<exists>s'. startDiscoveryLoop initialInputs sched s = Running s' \<and> discoveryLoopActive s')
          | Some out \<Rightarrow>
              (\<exists>s'. startDiscoveryLoop initialInputs sched s
                       = Exited (tryFinalizeDiscoveryLoop (ls_notified sched) s')
                 \<and> discoveryLoopCompletionPayload s' = Some (completionOf out)
                 \<and> \<not> discoveryLoopActive s' \<and> \<not> discoveryLoopStopping s'))
       \<and> (ClickStop \<notin> set (ls_clicks_start sched)
            \<and> ls_iterations sched = pre @ it # rest
            \<and> (\<forall>i \<in> set pre. quietRun i)
            \<and> ClickStop \<in> set (it_clicks_run it)
            \<and> rr_discover (it_replies it) = Discovered f b
          \<longrightarrow> loopOutcome sched = Some (map foundOf pre @ [f], False))"
proof
  let ?s0 = "startDiscoveryLoop_enter (ls_clicks_start sched) s"
  from startDiscoveryLoop_unfold [OF assms, of sched]
  obtain inputs where unf: "startDiscoveryLoop initialInputs sched s =
     (case discoveryLoop inputs (ls_iterations sched) ?s0 of
        Running s'' \<Rightarrow> Running s''
      | Exited (loopError, s'') \<Rightarrow>
          Exited (tryFinalizeDiscoveryLoop (ls_notified sched) (loopFinally_store loopError s'')))"
    by blast
  from loopViewD [OF enter_view [of "ls_clicks_start sched" s]]
  have act: "discoveryLoopActive ?s0"
    and stp: "discoveryLoopStopping ?s0 = (ClickStop \<in> set (ls_clicks_start sched))"
    and sts: "discoveryLoopStats ?s0 = \<lparr> runs = 0, found = 0 \<rparr>"
    by simp_all
  show "case loopOutcome sched of
            None \<Rightarrow>
              (\<exists>s'. startDiscoveryLoop initialInputs sched s = Running s' \<and> discoveryLoopActive s')
          | Some out \<Rightarrow>
              (\<exists>s'. startDiscoveryLoop initialInputs sched s
                       = Exited (tryFinalizeDiscoveryLoop (ls_notified sched) s')
                 \<and> discoveryLoopCompletionPayload s' = Some (completionOf out)
                 \<and> \<not> discoveryLoopActive s' \<and> \<not> discoveryLoopStopping s')"
  proof (cases "ClickStop \<in> set (ls_clicks_start sched)")
    case True
    then have st: "discoveryLoopStopping ?s0" using stp by simp
    have lp: "discoveryLoop inputs (ls_iterations sched) ?s0 = Exited (False, ?s0)"
      using st by (cases "ls_iterations sched") simp_all
    have out: "loopOutcome sched = Some ([], False)" using True by (simp add: loopOutcome_def)
    have p: "discoveryLoopCompletionPayload (loopFinally_store False ?s0) = Some (completionOf ([], False))"
      using loopFinally_store_payload [of False ?s0] st sts by (simp add: completionOf_def)
    have na: "\<not> discoveryLoopActive (loopFinally_store False ?s0)"
      and ns: "\<not> discoveryLoopStopping (loopFinally_store False ?s0)"
      using loopFinally_store_payload [of False ?s0] by simp_all
    have eq: "startDiscoveryLoop initialInputs sched s
        = Exited (tryFinalizeDiscoveryLoop (ls_notified sched) (loopFinally_store False ?s0))"
      by (simp add: unf lp)
    show ?thesis unfolding out option.case
      by (intro exI [of _ "loopFinally_store False ?s0"] conjI eq p na ns)
  next
    case False
    then have nst: "\<not> discoveryLoopStopping ?s0" using stp by simp
    have out: "loopOutcome sched = loopExit (ls_iterations sched)"
      using False by (simp add: loopOutcome_def)
    show ?thesis
    proof (cases "loopExit (ls_iterations sched)")
      case None
      with discoveryLoop_exit [OF act nst, where its = "ls_iterations sched" and inputs = inputs]
      show ?thesis by (auto simp: out unf)
    next
      case (Some o')
      obtain fs err where o': "o' = (fs, err)" by (cases o')
      from discoveryLoop_exit [OF act nst, where its = "ls_iterations sched" and inputs = inputs] Some o'
      obtain s' where lp: "discoveryLoop inputs (ls_iterations sched) ?s0 = Exited (err, s')"
        and st': "\<not> err \<longrightarrow> discoveryLoopStopping s'"
        and sts': "discoveryLoopStats s' = \<lparr> runs = int (length fs), found = sum_list fs \<rparr>"
        using sts by auto
      have p: "discoveryLoopCompletionPayload (loopFinally_store err s') = Some (completionOf (fs, err))"
        using loopFinally_store_payload [of err s'] st' sts' by (simp add: completionOf_def)
      have na: "\<not> discoveryLoopActive (loopFinally_store err s')"
        and ns: "\<not> discoveryLoopStopping (loopFinally_store err s')"
        using loopFinally_store_payload [of err s'] by simp_all
      have eq: "startDiscoveryLoop initialInputs sched s
          = Exited (tryFinalizeDiscoveryLoop (ls_notified sched) (loopFinally_store err s'))"
        by (simp add: unf lp)
      show ?thesis unfolding out Some o' option.case
        by (intro exI [of _ "loopFinally_store err s'"] conjI eq p na ns)
    qed
  qed
next
  show "ClickStop \<notin> set (ls_clicks_start sched)
            \<and> ls_iterations sched = pre @ it # rest
            \<and> (\<forall>i \<in> set pre. quietRun i)
            \<and> ClickStop \<in> set (it_clicks_run it)
            \<and> rr_discover (it_replies it) = Discovered f b
          \<longrightarrow> loopOutcome sched = Some (map foundOf pre @ [f], False)"
    by (auto simp: loopOutcome_def loopExit_stop_during_run)
qed

theorem startDiscoveryLoop_completion_witness:
  "\<not> discoveryLoopActive initialDashboard
   \<and> loopOutcome scenario = Some ([2, 2], False)
   \<and> (\<exists>s'. startDiscoveryLoop (Some inputs0) scenario initialDashboard = Exited s'
          \<and> discoveryLoopCompletionPayload s'
              = Some \<lparr> c_runs = 2, c_discovered = 4, c_reason = Some ''stopped'',
                       c_error = False, c_message = None \<rparr>)"
proof -
  have a: "\<not> discoveryLoopActive initialDashboard" by (simp add: initialDashboard_def)
  have b: "Some inputs0 = None \<longrightarrow> keywordList (discoverySettings initialDashboard) \<noteq> []" by simp
  have q: "\<forall>i \<in> set [quietIteration 2]. quietRun i"
    by (simp add: quietRun_def quietIteration_def stopClicked_def)
  have h: "ClickStop \<notin> set (ls_clicks_start scenario)
      \<and> ls_iterations scenario = [quietIteration 2] @ stopDuringRun 2 # [quietIteration 2]
      \<and> (\<forall>i \<in> set [quietIteration 2]. quietRun i)
      \<and> ClickStop \<in> set (it_clicks_run (stopDuringRun 2))
      \<and> rr_discover (it_replies (stopDuringRun 2)) = Discovered 2 0"
    using q by (simp add: scenario_def stopDuringRun_def quietIteration_def)
  note t = startDiscoveryLoop_completion [OF a b, of scenario "[quietIteration 2]"
      "stopDuringRun 2" "[quietIteration 2]" 2 0]
  from t h have out: "loopOutcome scenario = Some ([2, 2], False)"
    by (simp add: foundOf_def quietIteration_def)
  from t out obtain s' where
    e: "startDiscoveryLoop (Some inputs0) scenario initialDashboard
          = Exited (tryFinalizeDiscoveryLoop (ls_notified scenario) s')"
    and p: "discoveryLoopCompletionPayload s' = Some (completionOf ([2, 2], False))"
    by auto
  have n: "ls_notified scenario = False" by (simp add: scenario_def)
  have "discoveryLoopCompletionPayload (tryFinalizeDiscoveryLoop (ls_notified scenario) s')
      = Some \<lparr> c_runs = 2, c_discovered = 4, c_reason = Some ''stopped'',
               c_error = False, c_message = None \<rparr>"
    by (simp add: n tryFinalize_failed_payload p completionOf_def)
  with e a out show ?thesis by blast
qed

subsection \<open>Stopping\<close>

lemma applyClicks_append: "applyClicks (a @ b) s = applyClicks b (applyClicks a s)"
  by (simp add: applyClicks_def)

lemma stop_twice: "stopDiscoveryLoop (stopDiscoveryLoop s) = stopDiscoveryLoop s"
  by (simp add: stopDiscoveryLoop_def updateStatusBar_def emit_def)

lemma clicks_twice:
  "applyClicks (cs @ ClickStop # ClickStop # cs') s = applyClicks (cs @ ClickStop # cs') s"
  by (simp add: applyClicks_append) (simp add: applyClicks_def stop_twice)

lemma loopBody_cong:
  assumes "applyClicks (it_clicks_run it) = applyClicks (it_clicks_run it')"
    and "it_replies it = it_replies it'"
    and "it_clicks_report it = it_clicks_report it'"
    and "it_clicks_delay it = it_clicks_delay it'"
  shows "loopBody inputs it s = loopBody inputs it' s"
  unfolding loopBody_def assms ..

text \<open>
  Erasing what Stop leaves behind commutes with everything a run does: none of it reads
  the two flags, and none of it writes the notice or the request of Stop.
\<close>

lemma ws_sel [simp]:
  "activeTab (withoutStop s) = activeTab s"
  "currentStats (withoutStop s) = currentStats s"
  "eventSource (withoutStop s) = eventSource s"
  "enrichmentBusy (withoutStop s) = enrichmentBusy s"
  "discoveryLoopActive (withoutStop s) = discoveryLoopActive s"
  "discoveryLoopStats (withoutStop s) = discoveryLoopStats s"
  "pendingAutoEnrich (withoutStop s) = pendingAutoEnrich s"
  "autoEnrichQueuedNotified (withoutStop s) = autoEnrichQueuedNotified s"
  "discoverySettings (withoutStop s) = discoverySettings s"
  "activeDropdown (withoutStop s) = activeDropdown s"
  "statsPromise (withoutStop s) = statsPromise s"
  "lastLoopCompletionVersion (withoutStop s) = lastLoopCompletionVersion s"
  "enrichForceToggle (withoutStop s) = enrichForceToggle s"
  "enrichNeverToggle (withoutStop s) = enrichNeverToggle s"
  by (simp_all add: withoutStop_def)

lemma ws_upd [simp]:
  "withoutStop (s\<lparr>currentStats := a\<rparr>) = (withoutStop s)\<lparr>currentStats := a\<rparr>"
  "withoutStop (s\<lparr>statsPromise := b\<rparr>) = (withoutStop s)\<lparr>statsPromise := b\<rparr>"
  "withoutStop (s\<lparr>lastLoopCompletionVersion := c\<rparr>) = (withoutStop s)\<lparr>lastLoopCompletionVersion := c\<rparr>"
  "withoutStop (s\<lparr>enrichmentBusy := d\<rparr>) = (withoutStop s)\<lparr>enrichmentBusy := d\<rparr>"
  "withoutStop (s\<lparr>autoEnrichQueuedNotified := e\<rparr>) = (withoutStop s)\<lparr>autoEnrichQueuedNotified := e\<rparr>"
  "withoutStop (s\<lparr>enrichButtonsDisabled := f\<rparr>) = (withoutStop s)\<lparr>enrichButtonsDisabled := f\<rparr>"
  "withoutStop (s\<lparr>eventSource := g\<rparr>) = (withoutStop s)\<lparr>eventSource := g\<rparr>"
  "withoutStop (s\<lparr>pendingAutoEnrich := h\<rparr>) = (withoutStop s)\<lparr>pendingAutoEnrich := h\<rparr>"
  "withoutStop (s\<lparr>activeDropdown := i\<rparr>) = (withoutStop s)\<lparr>activeDropdown := i\<rparr>"
  "withoutStop (s\<lparr>settingsModalOpen := j\<rparr>) = (withoutStop s)\<lparr>settingsModalOpen := j\<rparr>"
  "withoutStop (s\<lparr>discoveryLoopStats := k\<rparr>) = (withoutStop s)\<lparr>discoveryLoopStats := k\<rparr>"
  by (simp_all add: withoutStop_def)

lemma ws_emit: "\<not> stopNotice e \<Longrightarrow> withoutStop (emit e s) = emit e (withoutStop s)"
  by (simp add: withoutStop_def emit_def)

lemma ws_emit_calls [simp]:
  "withoutStop (emit (ProgressBar p) s) = emit (ProgressBar p) (withoutStop s)"
  "withoutStop (emit (SummaryBar q) s) = emit (SummaryBar q) (withoutStop s)"
  "withoutStop (emit (CallDiscover i) s) = emit (CallDiscover i) (withoutStop s)"
  "withoutStop (emit CallFetchStats s) = emit CallFetchStats (withoutStop s)"
  "withoutStop (emit (CallFetchChannels c) s) = emit (CallFetchChannels c) (withoutStop s)"
  "withoutStop (emit (CallStartEnrichment m l f n) s) = emit (CallStartEnrichment m l f n) (withoutStop s)"
  "withoutStop (emit (CallNotifyProgress a b) s) = emit (CallNotifyProgress a b) (withoutStop s)"
  "withoutStop (emit (OpenStream j) s) = emit (OpenStream j) (withoutStop s)"
  "withoutStop (emit CloseStream s) = emit CloseStream (withoutStop s)"
  "withoutStop (emit (Delay d) s) = emit (Delay d) (withoutStop s)"
  by (simp_all add: ws_emit stopNotice_def)

lemma ws_updateStatusBar:
  "m \<noteq> StoppingAfterRun \<Longrightarrow>
   withoutStop (updateStatusBar m t s) = updateStatusBar m t (withoutStop s)"
  by (simp add: updateStatusBar_def ws_emit stopNotice_def)

lemma ws_closeDropdown [simp]: "withoutStop (closeDropdown m s) = closeDropdown m (withoutStop s)"
  by (simp add: closeDropdown_def)

lemma ws_closeAllDropdowns [simp]: "withoutStop (closeAllDropdowns s) = closeAllDropdowns (withoutStop s)"
  by (simp add: closeAllDropdowns_def split: option.splits)

lemma ws_openDiscoverSettings [simp]:
  "withoutStop (openDiscoverSettings s) = openDiscoverSettings (withoutStop s)"
proof -
  have a: "discoveryLoopActive (closeAllDropdowns s) = discoveryLoopActive s" for s
    by (simp add: closeAllDropdowns_def closeDropdown_def split: option.splits)
  show ?thesis by (simp add: openDiscoverSettings_def Let_def a ws_updateStatusBar)
qed

lemma ws_closeEventSource [simp]: "withoutStop (closeEventSource s) = closeEventSource (withoutStop s)"
  by (simp add: closeEventSource_def)

lemma ws_openEventSource [simp]: "withoutStop (openEventSource j s) = openEventSource j (withoutStop s)"
  by (simp add: openEventSource_def Let_def)

lemma ws_maybeRefresh [simp]:
  "withoutStop (maybeRefreshAfterLoop stats now s) = maybeRefreshAfterLoop stats now (withoutStop s)"
proof -
  have b: "maybeRefreshAfterLoop_begin stats now (withoutStop s)
           = (fst (maybeRefreshAfterLoop_begin stats now s),
              withoutStop (snd (maybeRefreshAfterLoop_begin stats now s)))"
    by (simp add: maybeRefreshAfterLoop_begin_def Let_def cong: option.case_cong)
  have f: "withoutStop (maybeRefreshAfterLoop_finish stats x) = maybeRefreshAfterLoop_finish stats (withoutStop x)" for x
    by (simp add: maybeRefreshAfterLoop_finish_def Let_def ws_updateStatusBar emit_def [symmetric])
       (simp add: emit_def)
  show ?thesis
    unfolding maybeRefreshAfterLoop_def b
    by (cases "maybeRefreshAfterLoop_begin stats now s") (simp add: f split: bool.splits)
qed

lemma ws_loadStats [simp]:
  "withoutStop (loadStats reply now s) = loadStats reply now (withoutStop s)"
proof -
  have b: "withoutStop (loadStats_begin x) = loadStats_begin (withoutStop x)" for x
    by (simp add: loadStats_begin_def)
  have t: "withoutStop (loadStats_settle reply now x) = loadStats_settle reply now (withoutStop x)" for x
    by (cases reply) (simp_all add: loadStats_settle_def ws_updateStatusBar)
  show ?thesis by (simp add: loadStats_def b t)
qed

lemma ws_handleEnrich [simp]:
  "withoutStop (handleEnrich mode l a r s) = handleEnrich mode l a r (withoutStop s)"
proof -
  have e: "enrichmentBusy (closeDropdown m x) = enrichmentBusy x"
    "discoverySettings (closeDropdown m x) = discoverySettings x"
    "enrichForceToggle (closeDropdown m x) = enrichForceToggle x"
    "enrichNeverToggle (closeDropdown m x) = enrichNeverToggle x"
    "pendingAutoEnrich (closeDropdown m x) = pendingAutoEnrich x"
    "pendingAutoEnrich (emit ef x) = pendingAutoEnrich x" for m x ef
    by (simp_all add: closeDropdown_def emit_def)
  show ?thesis
    by (cases r)
       (simp_all add: handleEnrich_def Let_def e ws_updateStatusBar
          cong: option.case_cong split: option.splits)
qed

lemma ws_triggerAutoEnrich [simp]:
  "withoutStop (triggerAutoEnrich n r s) = triggerAutoEnrich n r (withoutStop s)"
  by (simp add: triggerAutoEnrich_def Let_def isAutoEnrichEnabled_def ws_updateStatusBar)

lemma ws_resume:
  "withoutStop (snd (performDiscoveryRun_resume label d replies s))
   = snd (performDiscoveryRun_resume label d replies (withoutStop s))"
  by (cases "rr_discover replies")
     (simp_all add: performDiscoveryRun_resume_def Let_def ws_updateStatusBar)

lemma ws_begin:
  "withoutStop (performDiscoveryRun_begin inputs label s)
   = performDiscoveryRun_begin inputs label (withoutStop s)"
  by (simp add: performDiscoveryRun_begin_def ws_updateStatusBar)

lemma ws_idem [simp]: "withoutStop (withoutStop s) = withoutStop s"
  by (simp add: withoutStop_def)

lemma ws_stop [simp]: "withoutStop (stopDiscoveryLoop s) = withoutStop s"
  by (simp add: stopDiscoveryLoop_def updateStatusBar_def emit_def withoutStop_def stopNotice_def)

lemma ws_applyClicks:
  "withoutStop (applyClicks cs s)
   = applyClicks (filter (\<lambda>c. c \<noteq> ClickStop) cs) (withoutStop s)"
proof (induction cs arbitrary: s)
  case Nil
  then show ?case by (simp add: applyClicks_def)
next
  case (Cons c cs)
  have step: "applyClicks (k # ks) s = applyClicks ks (applyClick k s)" for s k ks
    by (simp add: applyClicks_def)
  show ?case
  proof (cases c)
    case ClickStop
    then show ?thesis by (simp add: step Cons.IH)
  next
    case ClickDiscover
    then show ?thesis by (simp add: step Cons.IH)
  qed
qed

text \<open>The log of effects only grows.\<close>

lemma fx_simple [simp]:
  "effects (closeDropdown m s) = effects s"
  "effects (closeAllDropdowns s) = effects s"
  by (simp_all add: closeDropdown_def closeAllDropdowns_def split: option.splits)

lemma px_emit [simp]: "prefix (effects s) (effects (emit e s))"
  by (simp add: emit_def)

lemma px_updateStatusBar [simp]: "prefix (effects s) (effects (updateStatusBar m t s))"
  by (simp add: updateStatusBar_def)

lemma px_trans: "prefix (effects a) (effects b) \<Longrightarrow> prefix (effects b) (effects c) \<Longrightarrow> prefix (effects a) (effects c)"
  by (rule prefix_order.trans)

lemma px_maybeRefresh [simp]: "prefix (effects s) (effects (maybeRefreshAfterLoop stats now s))"
proof -
  have b: "effects (snd (maybeRefreshAfterLoop_begin stats now s)) = effects s"
    by (simp add: maybeRefreshAfterLoop_begin_def Let_def)
  have f: "prefix (effects x) (effects (maybeRefreshAfterLoop_finish stats x))" for x
    by (simp add: maybeRefreshAfterLoop_finish_def Let_def updateStatusBar_def emit_def)
  show ?thesis
    using b f [of "snd (maybeRefreshAfterLoop_begin stats now s)"]
    by (cases "maybeRefreshAfterLoop_begin stats now s")
       (auto simp: maybeRefreshAfterLoop_def split: bool.splits)
qed

lemma px_loadStats [simp]: "prefix (effects s) (effects (loadStats reply now s))"
proof -
  have b: "prefix (effects s) (effects (loadStats_begin s))"
    by (simp add: loadStats_begin_def emit_def)
  have u: "effects (x\<lparr>currentStats := a\<rparr>) = effects x" for x a by simp
  have t: "prefix (effects x) (effects (loadStats_settle reply now x))" for x
  proof (cases reply)
    case None
    then show ?thesis by (simp add: loadStats_settle_def updateStatusBar_def emit_def)
  next
    case (Some stats)
    have "prefix (effects (x\<lparr>currentStats := Some stats\<rparr>))
            (effects (maybeRefreshAfterLoop stats now (x\<lparr>currentStats := Some stats\<rparr>)))"
      by (rule px_maybeRefresh)
    then show ?thesis using Some by (simp add: loadStats_settle_def)
  qed
  show ?thesis unfolding loadStats_def using b t by (rule px_trans)
qed

lemma px_handleEnrich [simp]: "prefix (effects s) (effects (handleEnrich mode l a r s))"
  by (cases r)
     (simp_all add: handleEnrich_def Let_def updateStatusBar_def emit_def openEventSource_def
        closeEventSource_def split: option.splits)

lemma px_triggerAutoEnrich [simp]: "prefix (effects s) (effects (triggerAutoEnrich n r s))"
  by (simp add: triggerAutoEnrich_def Let_def updateStatusBar_def emit_def)

lemma px_stop [simp]: "prefix (effects s) (effects (stopDiscoveryLoop s))"
  by (simp add: stopDiscoveryLoop_def updateStatusBar_def emit_def)

lemma px_openDiscoverSettings [simp]: "prefix (effects s) (effects (openDiscoverSettings s))"
  by (simp add: openDiscoverSettings_def Let_def updateStatusBar_def emit_def)

lemma px_applyClicks [simp]: "prefix (effects s) (effects (applyClicks cs s))"
proof (induction cs arbitrary: s)
  case Nil
  then show ?case by (simp add: applyClicks_def)
next
  case (Cons c cs)
  have step: "applyClicks (c # cs) s = applyClicks cs (applyClick c s)"
    by (simp add: applyClicks_def)
  have "prefix (effects s) (effects (applyClick c s))" by (cases c) simp_all
  then show ?case unfolding step using Cons.IH by (rule px_trans)
qed

text \<open>The first Stop that takes effect leaves its request in the log.\<close>

lemma clicks_stop_split:
  assumes "discoveryLoopActive s" "\<not> discoveryLoopStopping s" "ClickStop \<in> set cs"
  shows "\<exists>pre post. effects (applyClicks cs s) = effects s @ pre @ CallNotifyStop # post"
  using assms
proof (induction cs arbitrary: s)
  case Nil
  then show ?case by simp
next
  case (Cons c cs)
  have step: "applyClicks (k # cs) s = applyClicks cs (applyClick k s)" for k
    by (simp add: applyClicks_def)
  show ?case
  proof (cases c)
    case ClickStop
    let ?s1 = "stopDiscoveryLoop s"
    have e1: "effects ?s1 = effects s @ [StatusBar StoppingAfterRun Info, CallNotifyStop]"
      using Cons.prems(1,2) by (simp add: stopDiscoveryLoop_def updateStatusBar_def emit_def)
    obtain rest where "effects (applyClicks cs ?s1) = effects ?s1 @ rest"
      using px_applyClicks [of ?s1 cs] by (auto simp: prefix_def)
    then have "effects (applyClicks (c # cs) s)
        = effects s @ [StatusBar StoppingAfterRun Info] @ CallNotifyStop # rest"
      using ClickStop e1 by (simp add: step)
    then show ?thesis by blast
  next
    case ClickDiscover
    let ?s1 = "openDiscoverSettings s"
    have v: "loopView ?s1 = loopView s" by simp
    have a: "discoveryLoopActive ?s1" and n: "\<not> discoveryLoopStopping ?s1"
      using v Cons.prems(1,2) by (simp_all add: loopView_def)
    have m: "ClickStop \<in> set cs" using Cons.prems(3) ClickDiscover by simp
    obtain e0 where e0: "effects ?s1 = effects s @ e0"
      using px_openDiscoverSettings [of s] by (auto simp: prefix_def)
    from Cons.IH [OF a n m] obtain pre post where
      "effects (applyClicks cs ?s1) = effects ?s1 @ pre @ CallNotifyStop # post" by blast
    then have "effects (applyClicks (c # cs) s) = effects s @ (e0 @ pre) @ CallNotifyStop # post"
      using ClickDiscover e0 by (simp add: step)
    then show ?thesis by blast
  qed
qed

lemma resume_effects:
  assumes "rr_discover replies = Discovered f b"
  shows "\<exists>a c. effects (snd (performDiscoveryRun_resume label True replies s))
                 = effects s @ a @ CallFetchChannels ACTIVE # c"
proof -
  let ?s2 = "loadStats (rr_stats replies) (rr_now replies) s"
  let ?s3 = "emit (CallFetchChannels ACTIVE) ?s2"
  let ?s4 = "triggerAutoEnrich (Fin (of_int f)) (rr_enrich replies) ?s3"
  have r: "snd (performDiscoveryRun_resume label True replies s) = ?s4"
    using assms by (simp add: performDiscoveryRun_resume_def Let_def)
  obtain a where a: "effects ?s2 = effects s @ a"
    using px_loadStats [of s] by (auto simp: prefix_def)
  obtain c where c: "effects ?s4 = effects ?s3 @ c"
    using px_triggerAutoEnrich [of ?s3] by (auto simp: prefix_def)
  have "effects ?s4 = effects s @ a @ CallFetchChannels ACTIVE # c"
    using a c by (simp add: emit_def)
  then show ?thesis unfolding r by blast
qed

text \<open>A turn of the loop in which Stop is pressed during the run, and the same turn without.\<close>

lemma stopped_turn:
  assumes act: "discoveryLoopActive s" and nst: "\<not> discoveryLoopStopping s"
    and clk: "ClickStop \<in> set (it_clicks_run it)"
    and rep: "rr_discover (it_replies it) = Discovered f b"
  shows "\<exists>s'. loopBody inputs it s = Inl (False, s')
          \<and> discoveryLoopStopping s'
          \<and> discoveryLoopStats s' =
              \<lparr> runs = runs (discoveryLoopStats s) + 1, found = found (discoveryLoopStats s) + f \<rparr>
          \<and> discoverCalls s' = Suc (discoverCalls s)
          \<and> (\<exists>pre post. effects s' = effects s @ pre @ CallNotifyStop # post
                \<and> CallFetchChannels ACTIVE \<in> set post
                \<and> CallNotifyProgress (runs (discoveryLoopStats s) + 1)
                     (found (discoveryLoopStats s) + f) \<in> set post)
          \<and> (\<exists>t. loopBody inputs (unstopped it) s = Inr t
                \<and> withoutStop t = withoutStop (emit (Delay 2000) s'))"
proof -
  let ?i = "runs (discoveryLoopStats s) + 1"
  let ?st = "\<lparr> runs = runs (discoveryLoopStats s) + 1, found = found (discoveryLoopStats s) + f \<rparr>"
  let ?ns = "\<lambda>c. c \<noteq> ClickStop"
  let ?s1 = "performDiscoveryRun_begin inputs (Some ?i) s"
  \<comment> \<open>the turn with Stop\<close>
  let ?s2 = "applyClicks (it_clicks_run it) ?s1"
  let ?r = "performDiscoveryRun_resume (Some ?i) True (it_replies it) ?s2"
  let ?s3 = "snd ?r"
  let ?s4 = "?s3\<lparr>discoveryLoopStats :=
      \<lparr> runs = runs (discoveryLoopStats ?s3) + 1, found = found (discoveryLoopStats ?s3) + f \<rparr>\<rparr>"
  let ?s5 = "emit (CallNotifyProgress (runs (discoveryLoopStats ?s4)) (found (discoveryLoopStats ?s4))) ?s4"
  let ?s6 = "applyClicks (it_clicks_report it) ?s5"
  let ?s7 = "updateStatusBar (RunTotal ?i f b (found (discoveryLoopStats ?s6))) Success ?s6"
  let ?s8 = "applyClicks (it_clicks_delay it) (emit (Delay 2000) ?s7)"
  \<comment> \<open>the turn without\<close>
  let ?t2 = "applyClicks (filter ?ns (it_clicks_run it)) ?s1"
  let ?q = "performDiscoveryRun_resume (Some ?i) True (it_replies it) ?t2"
  let ?t3 = "snd ?q"
  let ?t4 = "?t3\<lparr>discoveryLoopStats :=
      \<lparr> runs = runs (discoveryLoopStats ?t3) + 1, found = found (discoveryLoopStats ?t3) + f \<rparr>\<rparr>"
  let ?t5 = "emit (CallNotifyProgress (runs (discoveryLoopStats ?t4)) (found (discoveryLoopStats ?t4))) ?t4"
  let ?t6 = "applyClicks (filter ?ns (it_clicks_report it)) ?t5"
  let ?t7 = "updateStatusBar (RunTotal ?i f b (found (discoveryLoopStats ?t6))) Success ?t6"
  let ?t8 = "emit (Delay 2000) ?t7"

  have res: "?r = (Some (f, b), ?s3)"
    using rep resume_result [of "Some ?i" True "it_replies it" ?s2] by (cases ?r) simp
  have resq: "?q = (Some (f, b), ?t3)"
    using rep resume_result [of "Some ?i" True "it_replies it" ?t2] by (cases ?q) simp
  have body: "loopBody inputs it s =
      (if discoveryLoopStopping ?s7 then Inl (False, ?s7)
       else if discoveryLoopStopping ?s8 then Inl (False, ?s8) else Inr ?s8)"
    unfolding loopBody_def Let_def by (subst res) simp
  have u: "it_clicks_run (unstopped it) = filter ?ns (it_clicks_run it)"
    "it_replies (unstopped it) = it_replies it"
    "it_clicks_report (unstopped it) = filter ?ns (it_clicks_report it)"
    "it_clicks_delay (unstopped it) = []"
    by (simp_all add: unstopped_def)
  have e0: "applyClicks [] x = x" for x by (simp add: applyClicks_def)
  have bodyT: "loopBody inputs (unstopped it) s =
      (if discoveryLoopStopping ?t7 then Inl (False, ?t7)
       else if discoveryLoopStopping ?t8 then Inl (False, ?t8) else Inr ?t8)"
    unfolding loopBody_def Let_def u e0 by (subst resq) simp

  \<comment> \<open>what the loop tests, with Stop\<close>
  have v1: "loopView ?s1 = (True, False, discoveryLoopStats s, Suc (discoverCalls s))"
    using act nst by (simp add: loopView_begin)
  have v2: "loopView ?s2 = (True, True, discoveryLoopStats s, Suc (discoverCalls s))"
    using loopViewD [OF v1] clk by (simp add: loopView_applyClicks)
  have v3: "loopView ?s3 = (True, True, discoveryLoopStats s, Suc (discoverCalls s))"
    using v2 by simp
  have v4: "loopView ?s4 = (True, True, ?st, Suc (discoverCalls s))"
    using loopViewD [OF v3] by (simp add: loopView_stats_update)
  have v5: "loopView ?s5 = (True, True, ?st, Suc (discoverCalls s))"
    using v4 by (simp add: loopView_emit)
  have v6: "loopView ?s6 = (True, True, ?st, Suc (discoverCalls s))"
    using loopViewD [OF v5] by (simp add: loopView_applyClicks)
  have v7: "loopView ?s7 = (True, True, ?st, Suc (discoverCalls s))"
    using v6 by simp
  have out: "loopBody inputs it s = Inl (False, ?s7)"
    using loopViewD [OF v7] by (simp only: body if_True)

  \<comment> \<open>what the loop tests, without\<close>
  have nc: "ClickStop \<notin> set (filter ?ns cs)" for cs by simp
  have w2: "loopView ?t2 = (True, False, discoveryLoopStats s, Suc (discoverCalls s))"
    using loopViewD [OF v1] nc by (simp add: loopView_applyClicks)
  have w3: "loopView ?t3 = (True, False, discoveryLoopStats s, Suc (discoverCalls s))"
    using w2 by simp
  have w4: "loopView ?t4 = (True, False, ?st, Suc (discoverCalls s))"
    using loopViewD [OF w3] by (simp add: loopView_stats_update)
  have w5: "loopView ?t5 = (True, False, ?st, Suc (discoverCalls s))"
    using w4 by (simp add: loopView_emit)
  have w6: "loopView ?t6 = (True, False, ?st, Suc (discoverCalls s))"
    using loopViewD [OF w5] nc by (simp add: loopView_applyClicks)
  have w7: "loopView ?t7 = (True, False, ?st, Suc (discoverCalls s))"
    using w6 by simp
  have w8: "loopView ?t8 = (True, False, ?st, Suc (discoverCalls s))"
    using w7 by (simp add: loopView_emit)
  have outT: "loopBody inputs (unstopped it) s = Inr ?t8"
    using loopViewD [OF w7] loopViewD [OF w8] by (simp only: bodyT if_False)

  \<comment> \<open>the two turns, Stop aside\<close>
  have ff: "filter ?ns (filter ?ns cs) = filter ?ns cs" for cs by simp
  have e2: "withoutStop ?s2 = withoutStop ?t2" by (simp only: ws_applyClicks ff)
  have e3: "withoutStop ?s3 = withoutStop ?t3" by (simp only: ws_resume e2)
  have st3: "discoveryLoopStats ?s3 = discoveryLoopStats ?t3"
    using loopViewD [OF v3] loopViewD [OF w3] by simp
  have e4: "withoutStop ?s4 = withoutStop ?t4" by (simp only: ws_upd e3 st3)
  have st4: "discoveryLoopStats ?s4 = discoveryLoopStats ?t4"
    using loopViewD [OF v4] loopViewD [OF w4] by simp
  have e5: "withoutStop ?s5 = withoutStop ?t5" by (simp only: ws_emit_calls e4 st4)
  have e6: "withoutStop ?s6 = withoutStop ?t6" by (simp only: ws_applyClicks ff e5)
  have st6: "discoveryLoopStats ?s6 = discoveryLoopStats ?t6"
    using loopViewD [OF v6] loopViewD [OF w6] by simp
  have ne: "RunTotal ?i f b x \<noteq> StoppingAfterRun" for x by simp
  have e7: "withoutStop ?s7 = withoutStop ?t7"
    by (simp only: ws_updateStatusBar [OF ne] e6 st6)
  have e8: "withoutStop ?t8 = withoutStop (emit (Delay 2000) ?s7)"
    by (simp only: ws_emit_calls e7)

  \<comment> \<open>the log of the turn with Stop\<close>
  have a1: "discoveryLoopActive ?s1" and n1: "\<not> discoveryLoopStopping ?s1"
    using loopViewD [OF v1] by simp_all
  have x1: "effects ?s1 = effects s @ [StatusBar (StartingDiscovery (Some ?i)) Info, CallDiscover inputs]"
    by (simp add: performDiscoveryRun_begin_def updateStatusBar_def emit_def)
  from clicks_stop_split [OF a1 n1 clk] obtain pre mid where
    x2: "effects ?s2 = effects ?s1 @ pre @ CallNotifyStop # mid" by blast
  from resume_effects [OF rep, of "Some ?i" ?s2] obtain ra rc where
    x3: "effects ?s3 = effects ?s2 @ ra @ CallFetchChannels ACTIVE # rc" by blast
  have x5: "effects ?s5 = effects ?s3 @ [CallNotifyProgress (runs ?st) (found ?st)]"
    using loopViewD [OF v4] by (simp add: emit_def)
  obtain cl where x6: "effects ?s6 = effects ?s5 @ cl"
    using px_applyClicks [of ?s5 "it_clicks_report it"] by (auto simp: prefix_def)
  obtain la where x7: "effects ?s7 = effects ?s6 @ la"
    using px_updateStatusBar [of ?s6] by (auto simp: prefix_def)
  let ?pre = "[StatusBar (StartingDiscovery (Some ?i)) Info, CallDiscover inputs] @ pre"
  let ?post = "mid @ ra @ CallFetchChannels ACTIVE # rc
      @ [CallNotifyProgress (runs ?st) (found ?st)] @ cl @ la"
  have log: "effects ?s7 = effects s @ ?pre @ CallNotifyStop # ?post"
    by (simp only: x7 x6 x5 x3 x2 x1 append_assoc append.simps)
  have m1: "CallFetchChannels ACTIVE \<in> set ?post" by simp
  have m2: "CallNotifyProgress (runs (discoveryLoopStats s) + 1) (found (discoveryLoopStats s) + f)
            \<in> set ?post" by simp
  have trace: "\<exists>pre post. effects ?s7 = effects s @ pre @ CallNotifyStop # post
                \<and> CallFetchChannels ACTIVE \<in> set post
                \<and> CallNotifyProgress (runs (discoveryLoopStats s) + 1)
                     (found (discoveryLoopStats s) + f) \<in> set post"
    using log m1 m2 by (intro exI [of _ ?pre] exI [of _ ?post] conjI)
  have twin: "\<exists>t. loopBody inputs (unstopped it) s = Inr t
                \<and> withoutStop t = withoutStop (emit (Delay 2000) ?s7)"
    using outT e8 by (intro exI [of _ ?t8] conjI)
  from loopViewD [OF v7] have f1: "discoveryLoopStopping ?s7"
    and f2: "discoveryLoopStats ?s7 = ?st"
    and f3: "discoverCalls ?s7 = Suc (discoverCalls s)"
    by simp_all
  show ?thesis
    by (rule exI [of _ ?s7]) (intro conjI, (rule out f1 f2 f3 trace twin)+)
qed

text \<open>
  C2. \<open>stopDiscoveryLoop\<close> called twice gives the state that one call gives, in every
  state; a loop in which Stop is pressed twice in a row during a run proceeds exactly as
  the loop in which it is pressed once. And a Stop pressed while a run is in flight does
  not cut the run short. The run's result is counted (one more run, its found-count
  added), the loop then leaves the \<^verbatim>\<open>while\<close> without an error, and whatever the rest of
  the schedule holds, no further discovery request is sent. After the stop request has
  gone out, the run still reloads the table of active channels and the loop still reports
  its progress. And the state in which the loop exits is, but for what Stop itself leaves
  behind, the state that the same turn reaches when Stop is never pressed, at the moment
  its delay of 2000 ms begins.
\<close>

theorem stopDiscoveryLoop_idempotent:
  "stopDiscoveryLoop (stopDiscoveryLoop s) = stopDiscoveryLoop s
   \<and> discoveryLoop inputs (it\<lparr>it_clicks_run := cs @ [ClickStop, ClickStop] @ cs'\<rparr> # rest) s
       = discoveryLoop inputs (it\<lparr>it_clicks_run := cs @ [ClickStop] @ cs'\<rparr> # rest) s
   \<and> (discoveryLoopActive s \<and> \<not> discoveryLoopStopping s
        \<and> ClickStop \<in> set (it_clicks_run it)
        \<and> rr_discover (it_replies it) = Discovered f b
      \<longrightarrow> (\<exists>s'. discoveryLoop inputs (it # rest) s = Exited (False, s')
             \<and> discoveryLoopStopping s'
             \<and> discoveryLoopStats s' =
                 \<lparr> runs = runs (discoveryLoopStats s) + 1,
                   found = found (discoveryLoopStats s) + f \<rparr>
             \<and> discoverCalls s' = Suc (discoverCalls s)
             \<and> (\<exists>pre post. effects s' = effects s @ pre @ CallNotifyStop # post
                   \<and> CallFetchChannels ACTIVE \<in> set post
                   \<and> CallNotifyProgress (runs (discoveryLoopStats s) + 1)
                        (found (discoveryLoopStats s) + f) \<in> set post)
             \<and> (\<exists>t. loopBody inputs (unstopped it) s = Inr t
                   \<and> withoutStop t = withoutStop (emit (Delay 2000) s'))))"
proof (intro conjI impI)
  show "stopDiscoveryLoop (stopDiscoveryLoop s) = stopDiscoveryLoop s" by (rule stop_twice)
next
  have "loopBody inputs (it\<lparr>it_clicks_run := cs @ [ClickStop, ClickStop] @ cs'\<rparr>) s
      = loopBody inputs (it\<lparr>it_clicks_run := cs @ [ClickStop] @ cs'\<rparr>) s"
    by (rule loopBody_cong) (simp_all add: fun_eq_iff clicks_twice)
  then show "discoveryLoop inputs (it\<lparr>it_clicks_run := cs @ [ClickStop, ClickStop] @ cs'\<rparr> # rest) s
       = discoveryLoop inputs (it\<lparr>it_clicks_run := cs @ [ClickStop] @ cs'\<rparr> # rest) s"
    by simp
next
  assume h: "discoveryLoopActive s \<and> \<not> discoveryLoopStopping s
        \<and> ClickStop \<in> set (it_clicks_run it)
        \<and> rr_discover (it_replies it) = Discovered f b"
  then have act: "discoveryLoopActive s" and nst: "\<not> discoveryLoopStopping s"
    and clk: "ClickStop \<in> set (it_clicks_run it)"
    and rep: "rr_discover (it_replies it) = Discovered f b"
    by simp_all
  from stopped_turn [OF act nst clk rep, of inputs]
  obtain s' where body: "loopBody inputs it s = Inl (False, s')"
    and rest: "discoveryLoopStopping s'
          \<and> discoveryLoopStats s' =
              \<lparr> runs = runs (discoveryLoopStats s) + 1, found = found (discoveryLoopStats s) + f \<rparr>
          \<and> discoverCalls s' = Suc (discoverCalls s)
          \<and> (\<exists>pre post. effects s' = effects s @ pre @ CallNotifyStop # post
                \<and> CallFetchChannels ACTIVE \<in> set post
                \<and> CallNotifyProgress (runs (discoveryLoopStats s) + 1)
                     (found (discoveryLoopStats s) + f) \<in> set post)
          \<and> (\<exists>t. loopBody inputs (unstopped it) s = Inr t
                \<and> withoutStop t = withoutStop (emit (Delay 2000) s'))"
    by blast
  have "discoveryLoop inputs (it # rest) s = Exited (False, s')"
    using nst body by simp
  with rest show "\<exists>s'. discoveryLoop inputs (it # rest) s = Exited (False, s')
             \<and> discoveryLoopStopping s'
             \<and> discoveryLoopStats s' =
                 \<lparr> runs = runs (discoveryLoopStats s) + 1,
                   found = found (discoveryLoopStats s) + f \<rparr>
             \<and> discoverCalls s' = Suc (discoverCalls s)
             \<and> (\<exists>pre post. effects s' = effects s @ pre @ CallNotifyStop # post
                   \<and> CallFetchChannels ACTIVE \<in> set post
                   \<and> CallNotifyProgress (runs (discoveryLoopStats s) + 1)
                        (found (discoveryLoopStats s) + f) \<in> set post)
             \<and> (\<exists>t. loopBody inputs (unstopped it) s = Inr t
                   \<and> withoutStop t = withoutStop (emit (Delay 2000) s'))"
    by (intro exI [of _ s']) (rule conjI)
qed

theorem stopDiscoveryLoop_idempotent_witness:
  "discoveryLoopActive (initialDashboard\<lparr>discoveryLoopActive := True\<rparr>)
   \<and> \<not> discoveryLoopStopping (initialDashboard\<lparr>discoveryLoopActive := True\<rparr>)
   \<and> ClickStop \<in> set (it_clicks_run ((quietIteration 2)\<lparr>it_clicks_run := [ClickStop, ClickStop]\<rparr>))
   \<and> (\<exists>s'. discoveryLoop inputs0
            [(quietIteration 2)\<lparr>it_clicks_run := [ClickStop, ClickStop]\<rparr>, quietIteration 2]
            (initialDashboard\<lparr>discoveryLoopActive := True\<rparr>) = Exited (False, s')
          \<and> discoveryLoopStopping s'
          \<and> discoveryLoopStats s' = \<lparr> runs = 1, found = 2 \<rparr>
          \<and> discoverCalls s' = 1
          \<and> (\<exists>pre post. effects s' = pre @ CallNotifyStop # post
                \<and> CallFetchChannels ACTIVE \<in> set post
                \<and> CallNotifyProgress 1 2 \<in> set post)
          \<and> (\<exists>t. loopBody inputs0 (quietIteration 2) (initialDashboard\<lparr>discoveryLoopActive := True\<rparr>)
                     = Inr t
                \<and> withoutStop t = withoutStop (emit (Delay 2000) s')))"
proof -
  let ?s = "initialDashboard\<lparr>discoveryLoopActive := True\<rparr>"
  let ?it = "(quietIteration 2)\<lparr>it_clicks_run := [ClickStop, ClickStop]\<rparr>"
  have h: "discoveryLoopActive ?s \<and> \<not> discoveryLoopStopping ?s
        \<and> ClickStop \<in> set (it_clicks_run ?it)
        \<and> rr_discover (it_replies ?it) = Discovered 2 0"
    by (simp add: initialDashboard_def quietIteration_def)
  have z: "discoveryLoopStats ?s = \<lparr> runs = 0, found = 0 \<rparr>" "discoverCalls ?s = 0"
    "effects ?s = []"
    by (simp_all add: initialDashboard_def discoverCalls_def)
  have u: "unstopped ?it = quietIteration 2"
    by (simp add: unstopped_def quietIteration_def)
  from stopDiscoveryLoop_idempotent [where s = ?s and inputs = inputs0 and it = ?it
      and rest = "[quietIteration 2]" and f = 2 and b = 0] h z u
  show ?thesis by simp
qed

section \<open>Properties of the statistics poll\<close>

lemma begin_flag: "fst (maybeRefreshAfterLoop_begin stats now s) = refreshDue stats s"
  by (auto simp: maybeRefreshAfterLoop_begin_def refreshDue_def Let_def split: option.splits)

lemma begin_not_due: "\<not> refreshDue stats s \<Longrightarrow> maybeRefreshAfterLoop_begin stats now s = (False, s)"
  by (auto simp: maybeRefreshAfterLoop_begin_def refreshDue_def Let_def split: option.splits)

lemma begin_due:
  "refreshDue stats s \<Longrightarrow>
   maybeRefreshAfterLoop_begin stats now s =
     (True, s\<lparr>lastLoopCompletionVersion :=
                Some (case loop_version stats of Some v \<Rightarrow> v | None \<Rightarrow> now)\<rparr>)"
  by (auto simp: maybeRefreshAfterLoop_begin_def refreshDue_def Let_def split: option.splits)

lemma refresh_not_due: "\<not> refreshDue stats s \<Longrightarrow> maybeRefreshAfterLoop stats now s = s"
  by (simp add: maybeRefreshAfterLoop_def begin_not_due)

lemma refresh_due:
  "refreshDue stats s \<Longrightarrow>
   maybeRefreshAfterLoop stats now s =
     maybeRefreshAfterLoop_finish stats
       (s\<lparr>lastLoopCompletionVersion :=
            Some (case loop_version stats of Some v \<Rightarrow> v | None \<Rightarrow> now)\<rparr>)"
  by (simp add: maybeRefreshAfterLoop_def begin_due)

lemma finish_version:
  "lastLoopCompletionVersion (maybeRefreshAfterLoop_finish stats s) = lastLoopCompletionVersion s"
  by (simp add: maybeRefreshAfterLoop_finish_def Let_def updateStatusBar_def emit_def)

lemma finish_notices:
  "refreshNotices (maybeRefreshAfterLoop_finish stats s) = Suc (refreshNotices s)"
  by (simp add: maybeRefreshAfterLoop_finish_def Let_def updateStatusBar_def emit_def refreshNotices_def)

lemma finish_effects:
  "effects (maybeRefreshAfterLoop_finish stats s) =
     effects s @ CallFetchChannels ACTIVE
       # (if activeTab s \<noteq> ACTIVE then [CallFetchChannels (activeTab s)] else [])
       @ [StatusBar (LoopRefreshed (loop_last_reason stats))
            (if loop_last_reason stats = Some ''error'' then Error else Success)]"
  by (simp add: maybeRefreshAfterLoop_finish_def Let_def updateStatusBar_def emit_def)

lemma refreshNotices_version:
  "refreshNotices (s\<lparr>lastLoopCompletionVersion := x\<rparr>) = refreshNotices s"
  by (simp add: refreshNotices_def)

lemma seen_not_due:
  "loop_version stats = Some v \<Longrightarrow> v \<noteq> NaN \<Longrightarrow> lastLoopCompletionVersion s = Some v \<Longrightarrow>
   \<not> refreshDue stats s"
  by (simp add: refreshDue_def strictEq_def)

lemma pollAll_seen:
  assumes "\<forall>p \<in> set polls. loop_version (fst p) = Some v"
    and "v \<noteq> NaN" and "lastLoopCompletionVersion s = Some v"
  shows "pollAll polls s = s"
  using assms
proof (induction polls)
  case Nil
  then show ?case by (simp add: pollAll_def)
next
  case (Cons p polls)
  obtain stats now where p: "p = (stats, now)" by (cases p)
  have "\<not> refreshDue stats s" using Cons.prems p seen_not_due [of stats v s] by simp
  then have "maybeRefreshAfterLoop stats now s = s" by (rule refresh_not_due)
  then have "pollAll (p # polls) s = pollAll polls s" by (simp add: pollAll_def p)
  then show ?case using Cons by simp
qed

lemma pollAll_once:
  assumes "\<forall>p \<in> set polls. loop_version (fst p) = Some v" and nn: "v \<noteq> NaN"
  shows "refreshNotices (pollAll polls s) \<le> Suc (refreshNotices s)"
  using assms
proof (induction polls)
  case Nil
  then show ?case by (simp add: pollAll_def)
next
  case (Cons p polls)
  obtain stats now where p: "p = (stats, now)" by (cases p)
  have v: "loop_version stats = Some v" using Cons.prems p by simp
  have rest: "\<forall>p \<in> set polls. loop_version (fst p) = Some v" using Cons.prems by simp
  have step: "pollAll (p # polls) s = pollAll polls (maybeRefreshAfterLoop stats now s)"
    by (simp add: pollAll_def p)
  show ?case
  proof (cases "refreshDue stats s")
    case False
    then show ?thesis using Cons.IH [OF rest nn] by (simp add: step refresh_not_due)
  next
    case True
    let ?s' = "maybeRefreshAfterLoop stats now s"
    have l: "lastLoopCompletionVersion ?s' = Some v"
      by (simp add: refresh_due [OF True] finish_version v)
    have n: "refreshNotices ?s' = Suc (refreshNotices s)"
      by (simp add: refresh_due [OF True] finish_notices refreshNotices_version)
    show ?thesis by (simp add: step pollAll_seen [OF rest nn l] n)
  qed
qed

text \<open>
  C6. \<open>maybeRefreshAfterLoop\<close> goes on to refresh exactly when \<open>refreshDue\<close> holds: the
  loop is not running, a completion time stamp exists, no enrichment is processing, and the
  version of the statistics is not the last one seen. Otherwise it changes nothing and
  shows nothing. When it refreshes, it reloads the tables and shows one notice. The last
  version seen is written before the first \<^verbatim>\<open>await\<close>, so a second invocation with the same
  version does nothing, whether it comes after the first one has finished or while the
  first one still waits for its reload; over any series of polls that carry one and the same
  version, at most one notice is shown. A poll that finds a request in flight sends no
  second request.
\<close>

theorem maybeRefreshAfterLoop_once:
  fixes stats stats' :: server_stats and v now now' :: jsnum and s :: dashboard
  defines "s1 \<equiv> snd (maybeRefreshAfterLoop_begin stats now s)"
  shows "fst (maybeRefreshAfterLoop_begin stats now s) = refreshDue stats s
       \<and> (\<not> refreshDue stats s \<longrightarrow> maybeRefreshAfterLoop stats now s = s)
       \<and> (refreshDue stats s \<longrightarrow>
            effects (maybeRefreshAfterLoop stats now s) =
              effects s @ CallFetchChannels ACTIVE
                # (if activeTab s \<noteq> ACTIVE then [CallFetchChannels (activeTab s)] else [])
                @ [StatusBar (LoopRefreshed (loop_last_reason stats))
                     (if loop_last_reason stats = Some ''error'' then Error else Success)])
       \<and> (refreshDue stats s \<and> loop_version stats = Some v \<and> v \<noteq> NaN
            \<and> loop_version stats' = Some v \<longrightarrow>
              maybeRefreshAfterLoop_begin stats' now' s1 = (False, s1)
            \<and> maybeRefreshAfterLoop stats' now' (maybeRefreshAfterLoop stats now s)
                = maybeRefreshAfterLoop stats now s)
       \<and> ((\<forall>p \<in> set polls. loop_version (fst p) = Some v) \<and> v \<noteq> NaN \<longrightarrow>
            refreshNotices (pollAll polls s) \<le> Suc (refreshNotices s))
       \<and> loadStats_begin (loadStats_begin s) = loadStats_begin s"
proof -
  have c1: "fst (maybeRefreshAfterLoop_begin stats now s) = refreshDue stats s"
    by (rule begin_flag)
  have c2: "maybeRefreshAfterLoop stats now s = s" if "\<not> refreshDue stats s"
    using that by (rule refresh_not_due)
  have c3: "effects (maybeRefreshAfterLoop stats now s) =
              effects s @ CallFetchChannels ACTIVE
                # (if activeTab s \<noteq> ACTIVE then [CallFetchChannels (activeTab s)] else [])
                @ [StatusBar (LoopRefreshed (loop_last_reason stats))
                     (if loop_last_reason stats = Some ''error'' then Error else Success)]"
    if "refreshDue stats s"
    by (simp add: refresh_due [OF that] finish_effects)
  have c4: "maybeRefreshAfterLoop_begin stats' now' s1 = (False, s1)
            \<and> maybeRefreshAfterLoop stats' now' (maybeRefreshAfterLoop stats now s)
                = maybeRefreshAfterLoop stats now s"
    if due: "refreshDue stats s" and v: "loop_version stats = Some v" "v \<noteq> NaN"
      and v': "loop_version stats' = Some v"
  proof -
    have l1: "lastLoopCompletionVersion s1 = Some v"
      by (simp add: s1_def begin_due [OF due] v)
    have l2: "lastLoopCompletionVersion (maybeRefreshAfterLoop stats now s) = Some v"
      by (simp add: refresh_due [OF due] finish_version v)
    from seen_not_due [OF v' v(2) l1] seen_not_due [OF v' v(2) l2]
    show ?thesis by (simp add: begin_not_due refresh_not_due)
  qed
  have c5: "refreshNotices (pollAll polls s) \<le> Suc (refreshNotices s)"
    if "\<forall>p \<in> set polls. loop_version (fst p) = Some v" "v \<noteq> NaN"
    using that by (rule pollAll_once)
  have c6: "loadStats_begin (loadStats_begin s) = loadStats_begin s"
    by (simp add: loadStats_begin_def emit_def)
  from c1 c2 c3 c4 c5 c6 show ?thesis by blast
qed

theorem maybeRefreshAfterLoop_once_witness:
  "refreshDue stats7 initialDashboard
   \<and> effects (maybeRefreshAfterLoop stats7 (Fin 0) initialDashboard)
       = [CallFetchChannels ACTIVE, StatusBar (LoopRefreshed (Some ''stopped'')) Success]
   \<and> maybeRefreshAfterLoop stats7 (Fin 1) (maybeRefreshAfterLoop stats7 (Fin 0) initialDashboard)
       = maybeRefreshAfterLoop stats7 (Fin 0) initialDashboard
   \<and> refreshNotices (pollAll [(stats7, Fin 0), (stats7, Fin 1)] initialDashboard) \<le> 1"
proof -
  have due: "refreshDue stats7 initialDashboard"
    by (simp add: refreshDue_def stats7_def initialDashboard_def countOf_def orZero_def truthy_def
        strictEq_def)
  have v: "loop_version stats7 = Some (Fin 7)" by (simp add: stats7_def)
  have r: "loop_last_reason stats7 = Some ''stopped''" by (simp add: stats7_def)
  have a: "activeTab initialDashboard = ACTIVE" "effects initialDashboard = []"
    by (simp_all add: initialDashboard_def)
  have n: "refreshNotices initialDashboard = 0"
    by (simp add: refreshNotices_def initialDashboard_def)
  have p: "\<forall>p \<in> set [(stats7, Fin 0), (stats7, Fin 1)]. loop_version (fst p) = Some (Fin 7)"
    by (simp add: v)
  from maybeRefreshAfterLoop_once [of stats7 "Fin 0" initialDashboard "Fin 7" stats7 "Fin 1"
      "[(stats7, Fin 0), (stats7, Fin 1)]"] due v r a n p
  show ?thesis by simp
qed

section \<open>Properties of the enrichment handlers\<close>

subsection \<open>A second manual enrichment\<close>

text \<open>
  C7, as stated, fails in one point: the guard of \<open>handleEnrich\<close> returns without a
  word. With a job in flight, a second request shows no notice at all.
\<close>

theorem handleEnrich_busy_counterexample:
  "enrichmentBusy (initialDashboard\<lparr>enrichmentBusy := True\<rparr>)
   \<and> effects (initialDashboard\<lparr>enrichmentBusy := True\<rparr>) = []
   \<and> effects (handleEnrich ''full'' None False (Started ''job-2'' 3 0)
        (initialDashboard\<lparr>enrichmentBusy := True\<rparr>)) = []"
  by (simp add: handleEnrich_def closeDropdown_def initialDashboard_def)

text \<open>
  C7, amended. In every state in which an enrichment job is in flight
  (\<open>enrichmentBusy\<close>), \<open>handleEnrich\<close> only closes the enrich menu if it is open: it
  shows no notice, sends no request, queues nothing (\<open>pendingAutoEnrich\<close> is untouched),
  and changes no other field.
\<close>

theorem handleEnrich_busy:
  assumes "enrichmentBusy s"
  shows "handleEnrich mode limitOverride autoTriggered reply s = closeDropdown EnrichMenu s
       \<and> effects (handleEnrich mode limitOverride autoTriggered reply s) = effects s
       \<and> pendingAutoEnrich (handleEnrich mode limitOverride autoTriggered reply s) = pendingAutoEnrich s
       \<and> handleEnrich mode limitOverride autoTriggered reply s
          = s\<lparr>activeDropdown := (if activeDropdown s = Some EnrichMenu then None else activeDropdown s)\<rparr>"
  using assms by (simp add: handleEnrich_def closeDropdown_def)

theorem handleEnrich_busy_witness:
  "enrichmentBusy (initialDashboard\<lparr>enrichmentBusy := True, activeDropdown := Some EnrichMenu\<rparr>)
   \<and> handleEnrich ''email_only'' None False (Started ''job-2'' 3 0)
        (initialDashboard\<lparr>enrichmentBusy := True, activeDropdown := Some EnrichMenu\<rparr>)
     = initialDashboard\<lparr>enrichmentBusy := True, activeDropdown := None\<rparr>"
proof -
  let ?s = "initialDashboard\<lparr>enrichmentBusy := True, activeDropdown := Some EnrichMenu\<rparr>"
  have b: "enrichmentBusy ?s" by simp
  from handleEnrich_busy [OF b, of "''email_only''" None False "Started ''job-2'' 3 0"] b
  show ?thesis by (simp add: closeDropdown_def)
qed

section \<open>Sums of integers as doubles\<close>








section \<open>Properties of the enrichment queue\<close>

subsection \<open>What status messages and reloads leave alone\<close>

lemma coreViewD:
  "coreView s = ((a, b, c, d, e), (f, g, h, i, j), k) \<Longrightarrow>
   enrichmentBusy s = a \<and> pendingAutoEnrich s = b \<and> discoverySettings s = c
   \<and> enrichForceToggle s = d \<and> enrichNeverToggle s = e
   \<and> discoveryLoopActive s = f \<and> discoveryLoopCompletionPayload s = g
   \<and> finalizingDiscoveryLoop s = h \<and> discoveryLoopCompletionSent s = i
   \<and> finalizeTimers s = j \<and> orchestrationCalls s = k"
  by (simp add: coreView_def)


lemma orchestrationCalls_fields [simp]:
  "orchestrationCalls (s\<lparr>enrichmentBusy := x\<rparr>) = orchestrationCalls s"
  "orchestrationCalls (s\<lparr>pendingAutoEnrich := y\<rparr>) = orchestrationCalls s"
  by (simp_all add: orchestrationCalls_def)

lemma coreView_emit:
  "(case e of CallStartEnrichment m l f n \<Rightarrow> False | CallNotifyComplete r \<Rightarrow> False
      | SetTimeoutFinalize d \<Rightarrow> False | _ \<Rightarrow> True) \<Longrightarrow>
   coreView (emit e s) = coreView s"
  by (cases e) (simp_all add: coreView_def emit_def orchestrationCalls_def)

lemma coreView_updateStatusBar [simp]: "coreView (updateStatusBar m t s) = coreView s"
  by (simp add: updateStatusBar_def coreView_emit)

lemma coreView_closeDropdown [simp]: "coreView (closeDropdown m s) = coreView s"
  by (simp add: closeDropdown_def coreView_def orchestrationCalls_def)

lemma coreView_closeEventSource [simp]: "coreView (closeEventSource s) = coreView s"
  by (simp add: closeEventSource_def coreView_emit) (simp add: coreView_def orchestrationCalls_def)

lemma coreView_openEventSource [simp]: "coreView (openEventSource j s) = coreView s"
proof -
  have u: "coreView (s'\<lparr>eventSource := x\<rparr>) = coreView s'" for s' x
    by (simp add: coreView_def orchestrationCalls_def)
  show ?thesis by (simp add: openEventSource_def Let_def coreView_emit u)
qed

lemma coreView_maybeRefresh [simp]: "coreView (maybeRefreshAfterLoop stats now s) = coreView s"
proof -
  have f: "coreView (maybeRefreshAfterLoop_finish stats s') = coreView s'" for s'
    by (simp add: maybeRefreshAfterLoop_finish_def Let_def coreView_emit)
  have b: "coreView (snd (maybeRefreshAfterLoop_begin stats now s)) = coreView s"
    by (simp add: maybeRefreshAfterLoop_begin_def Let_def coreView_def orchestrationCalls_def)
  show ?thesis
    using b by (cases "maybeRefreshAfterLoop_begin stats now s")
      (auto simp: maybeRefreshAfterLoop_def f split: bool.splits)
qed

lemma coreView_loadStats [simp]: "coreView (loadStats reply now s) = coreView s"
proof -
  have u: "coreView (s'\<lparr>statsPromise := x\<rparr>) = coreView s'" for s' x
    by (simp add: coreView_def orchestrationCalls_def)
  have c: "coreView (s'\<lparr>currentStats := x\<rparr>) = coreView s'" for s' x
    by (simp add: coreView_def orchestrationCalls_def)
  have a: "coreView (loadStats_begin s) = coreView s"
    by (simp add: loadStats_begin_def coreView_emit u)
  have "coreView (loadStats_settle reply now s') = coreView s'" for s'
    by (cases reply) (simp_all add: loadStats_settle_def u c)
  then show ?thesis by (simp add: loadStats_def a)
qed

lemma orchestrationCalls_start [simp]:
  "orchestrationCalls (emit (autoStart s0 t) s) = orchestrationCalls s @ [autoStart s0 t]"
  by (simp add: orchestrationCalls_def emit_def autoStart_def)















subsection \<open>Auto-enrich requests while a job is in flight\<close>




section \<open>Properties of the finalization\<close>

subsection \<open>One delivery attempt, and a series of them\<close>



lemma awaitingFinalize_timers [simp]:
  "awaitingFinalize c (s\<lparr>finalizeTimers := n\<rparr>) = awaitingFinalize c s"
  by (simp add: awaitingFinalize_def)

lemma orchestrationCalls_timers [simp]:
  "orchestrationCalls (s\<lparr>finalizeTimers := n\<rparr>) = orchestrationCalls s"
  by (simp add: orchestrationCalls_def)







lemma coreView_stop [simp]: "coreView (stopDiscoveryLoop s) = coreView s"
proof -
  have "coreView (s\<lparr>discoveryLoopStopping := a, discoverStopBtnDisabled := b\<rparr>) = coreView s" for a b
    by (simp add: coreView_def orchestrationCalls_def)
  then show ?thesis by (simp add: stopDiscoveryLoop_def coreView_emit)
qed

lemma coreView_openDiscoverSettings [simp]: "coreView (openDiscoverSettings s) = coreView s"
proof -
  have c: "coreView (closeAllDropdowns s) = coreView s"
    by (simp add: closeAllDropdowns_def split: option.splits)
  have u: "coreView (s'\<lparr>settingsModalOpen := a\<rparr>) = coreView s'" for s' a
    by (simp add: coreView_def orchestrationCalls_def)
  show ?thesis by (simp add: openDiscoverSettings_def Let_def c u)
qed

lemma coreView_applyClicks [simp]: "coreView (applyClicks cs s) = coreView s"
proof (induction cs arbitrary: s)
  case Nil
  then show ?case by (simp add: applyClicks_def)
next
  case (Cons c cs)
  have "coreView (applyClick c s) = coreView s" by (cases c) simp_all
  moreover have "applyClicks (c # cs) s = applyClicks cs (applyClick c s)"
    by (simp add: applyClicks_def)
  ultimately show ?case using Cons.IH [of "applyClick c s"] by simp
qed



subsection \<open>Deferred delivery and its retries\<close>




end
